theory Spec2Isabelle
  imports Main "HOL-Library.Word"
begin

unbundle bit_operations_syntax

section \<open>The operating system as seen by logger.c\<close>

text \<open>
  \<^verbatim>\<open>src/logger.c\<close> is a C program whose behaviour is its sequence of calls into
  libc and the kernel. The model passes an explicit \<open>world\<close> through every function:
  the files by path, the process attributes the calls depend on, and the list of calls
  issued so far (oldest first). What the program cannot change is the record
  \<open>os_env\<close>. A call that the system refuses for a reason the model does not compute
  (permissions, a read-only or full disk, a directory in the way) is decided by its
  field \<open>refuse\<close>; the reasons the model does compute (a missing source, an existing
  target of \<^verbatim>\<open>mknod\<close>) are written out in each call.
\<close>

type_synonym path = string

record inode =
  st_mode :: "32 word"
  st_uid :: nat
  st_gid :: nat
  data :: string

datatype call =
    Stat path
  | Rename path path
  | Access path
  | System string
  | Remove path
  | Truncate path nat
  | Mknod path "32 word"
  | Chown path nat nat
  | Fopen path
  | Fstat path
  | Fsync path
  | Fclose path
  | Syslog int string
  | Openlog "string option" int int
  | Closelog
  | Print_version
  | Print_usage

record os_env =
  refuse :: "call \<Rightarrow> bool"
  umask :: "32 word"
  euid :: nat
  egid :: nat
  shell :: "string \<Rightarrow> (path \<rightharpoonup> inode) \<Rightarrow> (path \<rightharpoonup> inode)"
  stdio_flush :: "string \<Rightarrow> nat"
  environ :: "string \<rightharpoonup> string"

record world =
  files :: "path \<rightharpoonup> inode"
  os :: os_env
  trace :: "call list"

definition S_IFMT :: "32 word" where
  "S_IFMT = 0xF000"

definition S_IFREG :: "32 word" where
  "S_IFREG = 0x8000"

definition S_IFDIR :: "32 word" where
  "S_IFDIR = 0x4000"

definition ALLPERMS :: "32 word" where
  "ALLPERMS = 0xFFF"

definition S_ISUID :: "32 word" where
  "S_ISUID = 0x800"

definition S_ISGID :: "32 word" where
  "S_ISGID = 0x400"

definition S_IXGRP :: "32 word" where
  "S_IXGRP = 0x8"

definition S_ISREG :: "32 word \<Rightarrow> bool" where
  "S_ISREG m \<longleftrightarrow> m AND S_IFMT = S_IFREG"

definition st_size :: "inode \<Rightarrow> int" where
  "st_size f = int (length (data f))"

definition issue :: "call \<Rightarrow> world \<Rightarrow> world" where
  "issue c w = w\<lparr>trace := trace w @ [c]\<rparr>"

text \<open>\<^verbatim>\<open>stat(path, &st)\<close>: \<open>None\<close> is the nonzero return.\<close>

definition sys_stat :: "path \<Rightarrow> world \<Rightarrow> inode option \<times> world" where
  "sys_stat p w =
     (if refuse (os w) (Stat p) then (None, issue (Stat p) w)
      else (files w p, issue (Stat p) w))"

text \<open>
  \<^verbatim>\<open>rename(old, new)\<close>: fails when \<open>old\<close> does not exist; otherwise \<open>new\<close> names
  the file and \<open>old\<close> names nothing (renaming a file to itself changes nothing).
  The first component is the return value.
\<close>

definition sys_rename :: "path \<Rightarrow> path \<Rightarrow> world \<Rightarrow> int \<times> world" where
  "sys_rename old new w =
     (case files w old of
        None \<Rightarrow> (-1, issue (Rename old new) w)
      | Some f \<Rightarrow>
          if refuse (os w) (Rename old new) then (-1, issue (Rename old new) w)
          else (0, issue (Rename old new) (w\<lparr>files := (files w)(old := None, new \<mapsto> f)\<rparr>)))"

text \<open>\<^verbatim>\<open>access(path, F_OK)\<close>.\<close>

definition sys_access :: "path \<Rightarrow> world \<Rightarrow> int \<times> world" where
  "sys_access p w =
     (if files w p \<noteq> None \<and> \<not> refuse (os w) (Access p) then (0, issue (Access p) w)
      else (-1, issue (Access p) w))"

text \<open>
  \<^verbatim>\<open>system(cmd)\<close>: what the command does to the files is the world's \<open>shell\<close>;
  a command that cannot be run leaves the files as they are. logger.c ignores the
  return value, so the model does not carry it.
\<close>

definition sys_system :: "string \<Rightarrow> world \<Rightarrow> world" where
  "sys_system cmd w =
     (if refuse (os w) (System cmd) then issue (System cmd) w
      else issue (System cmd) (w\<lparr>files := shell (os w) cmd (files w)\<rparr>))"

text \<open>\<^verbatim>\<open>remove(path)\<close> of a file: \<^verbatim>\<open>unlink\<close>.\<close>

definition sys_remove :: "path \<Rightarrow> world \<Rightarrow> int \<times> world" where
  "sys_remove p w =
     (if files w p = None \<or> refuse (os w) (Remove p) then (-1, issue (Remove p) w)
      else (0, issue (Remove p) (w\<lparr>files := (files w)(p := None)\<rparr>)))"

text \<open>\<^verbatim>\<open>truncate(path, n)\<close>: cut, or pad with NUL bytes, to \<open>n\<close> bytes.\<close>

definition sys_truncate :: "path \<Rightarrow> nat \<Rightarrow> world \<Rightarrow> int \<times> world" where
  "sys_truncate p n w =
     (case files w p of
        None \<Rightarrow> (-1, issue (Truncate p n) w)
      | Some f \<Rightarrow>
          if refuse (os w) (Truncate p n) then (-1, issue (Truncate p n) w)
          else (0, issue (Truncate p n)
                 (w\<lparr>files := (files w)(p \<mapsto>
                    f\<lparr>data := take n (data f) @ replicate (n - length (data f)) (CHR 0x00)\<rparr>)\<rparr>)))"

text \<open>
  \<^verbatim>\<open>mknod(path, mode, 0)\<close>: fails when the path exists; the new node is empty, has
  the file type of \<open>mode\<close>, the permission bits of \<open>mode\<close> that the process's umask
  does not clear, and the effective user and group of the process.
\<close>

definition sys_mknod :: "path \<Rightarrow> 32 word \<Rightarrow> world \<Rightarrow> int \<times> world" where
  "sys_mknod p m w =
     (if files w p \<noteq> None \<or> refuse (os w) (Mknod p m) then (-1, issue (Mknod p m) w)
      else (0, issue (Mknod p m)
             (w\<lparr>files := (files w)(p \<mapsto>
                \<lparr>st_mode = (m AND S_IFMT) OR (m AND ALLPERMS AND NOT (umask (os w))),
                 st_uid = euid (os w), st_gid = egid (os w), data = []\<rparr>)\<rparr>)))"

text \<open>
  \<^verbatim>\<open>chown(path, uid, gid)\<close>. On a file that is not a directory the call also
  clears the set-user-ID bit, and the set-group-ID bit when the group may execute the
  file, whether or not the owner changes.
\<close>

definition chown_mode :: "32 word \<Rightarrow> 32 word" where
  "chown_mode m =
     (if m AND S_IFMT = S_IFDIR then m
      else if m AND S_IXGRP \<noteq> 0 then m AND NOT (S_ISUID OR S_ISGID)
      else m AND NOT S_ISUID)"

definition sys_chown :: "path \<Rightarrow> nat \<Rightarrow> nat \<Rightarrow> world \<Rightarrow> int \<times> world" where
  "sys_chown p u g w =
     (case files w p of
        None \<Rightarrow> (-1, issue (Chown p u g) w)
      | Some f \<Rightarrow>
          if refuse (os w) (Chown p u g) then (-1, issue (Chown p u g) w)
          else (0, issue (Chown p u g)
                 (w\<lparr>files := (files w)(p \<mapsto>
                    f\<lparr>st_mode := chown_mode (st_mode f), st_uid := u, st_gid := g\<rparr>)\<rparr>)))"

subsection \<open>Streams\<close>

text \<open>
  A \<^verbatim>\<open>FILE *\<close> opened by \<^verbatim>\<open>fopen(path, "a")\<close> is the path together with the
  bytes that stdio holds back in its buffer (\<open>pend\<close>). logger.c renames or removes
  files only while its stream is closed, so the open file is the file the path names.
  How many of the buffered bytes stdio hands to the kernel at a write is the world's
  \<open>stdio_flush\<close>, a function of the buffered bytes: \<open>length\<close> is an unbuffered
  stream, \<open>\<lambda>b. if length b < 4096 then 0 else length b\<close> a fully buffered one, which
  is what \<^verbatim>\<open>fopen\<close> gives on a regular file (logger.c calls neither
  \<^verbatim>\<open>setvbuf\<close> nor \<^verbatim>\<open>fflush\<close>).
  \<^verbatim>\<open>fsync(fileno(fp))\<close> acts on the descriptor and leaves the stdio buffer alone.
  Writes themselves do not fail in the model.
\<close>

definition fd_write :: "path \<Rightarrow> string \<Rightarrow> world \<Rightarrow> world" where
  "fd_write p s w =
     (case files w p of
        None \<Rightarrow> w
      | Some f \<Rightarrow> w\<lparr>files := (files w)(p \<mapsto> f\<lparr>data := data f @ s\<rparr>)\<rparr>)"

text \<open>
  \<^verbatim>\<open>fopen(path, "a")\<close>: a missing file is created empty with mode
  \<^verbatim>\<open>0666 & ~umask\<close>. \<open>False\<close> is the \<^verbatim>\<open>NULL\<close> return.
\<close>

definition sys_fopen :: "path \<Rightarrow> world \<Rightarrow> bool \<times> world" where
  "sys_fopen p w =
     (if refuse (os w) (Fopen p) then (False, issue (Fopen p) w)
      else (case files w p of
              Some f \<Rightarrow> (True, issue (Fopen p) w)
            | None \<Rightarrow> (True, issue (Fopen p)
                (w\<lparr>files := (files w)(p \<mapsto>
                   \<lparr>st_mode = S_IFREG OR (0x1B6 AND NOT (umask (os w))),
                    st_uid = euid (os w), st_gid = egid (os w), data = []\<rparr>)\<rparr>))))"

text \<open>\<^verbatim>\<open>fputs(s, fp)\<close> and \<^verbatim>\<open>fprintf(fp, ...)\<close> with the text \<open>s\<close>: the new buffer and world.\<close>

definition stdio_write :: "path \<Rightarrow> string \<Rightarrow> string \<Rightarrow> world \<Rightarrow> string \<times> world" where
  "stdio_write p pend s w =
     (let b = pend @ s; k = stdio_flush (os w) b
      in (drop k b, fd_write p (take k b) w))"

definition sys_fsync :: "path \<Rightarrow> world \<Rightarrow> world" where
  "sys_fsync p w = issue (Fsync p) w"

text \<open>\<^verbatim>\<open>fstat(fileno(fp), &st)\<close>.\<close>

definition sys_fstat :: "path \<Rightarrow> world \<Rightarrow> inode option \<times> world" where
  "sys_fstat p w =
     (if refuse (os w) (Fstat p) then (None, issue (Fstat p) w)
      else (files w p, issue (Fstat p) w))"

text \<open>\<^verbatim>\<open>fclose(fp)\<close> writes the buffer out; \<^verbatim>\<open>EOF\<close> (-1) when that fails.\<close>

definition sys_fclose :: "path \<Rightarrow> string \<Rightarrow> world \<Rightarrow> int \<times> world" where
  "sys_fclose p pend w =
     (if refuse (os w) (Fclose p) then (-1, issue (Fclose p) w)
      else (0, issue (Fclose p) (fd_write p pend w)))"

text \<open>
  \<^verbatim>\<open>fgets(buf, n, stdin)\<close> on the unread input: \<open>None\<close> is \<^verbatim>\<open>NULL\<close> (end of
  input), otherwise the bytes stored in \<open>buf\<close> (at most \<open>n - 1\<close>, ending after the
  first newline) and the input left. With \<open>n = 1\<close> it stores the empty string and
  reads nothing.
\<close>

definition fgets :: "nat \<Rightarrow> string \<Rightarrow> (string \<times> string) option" where
  "fgets n inp =
     (if n = 0 then None
      else if n = 1 then Some ([], inp)
      else if inp = [] then None
      else let line = takeWhile (\<lambda>c. c \<noteq> CHR 0x0A) inp;
               k = (if length line < length inp then length line + 1 else length line);
               m = min k (n - 1)
           in Some (take m inp, drop m inp))"

section \<open>Strings of C\<close>

text \<open>A C string ends at its first NUL byte.\<close>

definition cstr :: "string \<Rightarrow> string" where
  "cstr s = takeWhile (\<lambda>c. c \<noteq> CHR 0x00) s"

text \<open>
  \<^verbatim>\<open>snprintf(buf, len, ...)\<close> leaves in \<open>buf\<close> the first \<open>len - 1\<close> bytes of the
  formatted text \<open>s\<close> (and nothing at all when \<open>len = 0\<close>: \<open>old\<close> is what the
  buffer held).
\<close>

definition snprintf :: "string \<Rightarrow> nat \<Rightarrow> string \<Rightarrow> string" where
  "snprintf old len s = (if len = 0 then old else take (len - 1) s)"

definition digit_char :: "nat \<Rightarrow> char" where
  "digit_char d = ''0123456789'' ! d"

fun digits :: "nat \<Rightarrow> string" where
  "digits n = (if n < 10 then [digit_char n] else digits (n div 10) @ [digit_char (n mod 10)])"

declare digits.simps [simp del]

text \<open>The text of \<^verbatim>\<open>%d\<close>.\<close>

definition dec :: "int \<Rightarrow> string" where
  "dec i = (if i < 0 then CHR ''-'' # digits (nat (- i)) else digits (nat i))"

section \<open>create and logrotate\<close>

text \<open>
  \<^verbatim>\<open>return mknod(path, S_IFREG | mode, 0) || chown(path, uid, gid);\<close>
  \<^verbatim>\<open>||\<close> does not evaluate \<^verbatim>\<open>chown\<close> when \<^verbatim>\<open>mknod\<close> returned nonzero.
\<close>

definition create :: "path \<Rightarrow> 32 word \<Rightarrow> nat \<Rightarrow> nat \<Rightarrow> world \<Rightarrow> int \<times> world" where
  "create p mode uid gid w =
     (case sys_mknod p (S_IFREG OR mode) w of
        (r, w1) \<Rightarrow>
          if r \<noteq> 0 then (1, w1)
          else (case sys_chown p uid gid w1 of (r2, w2) \<Rightarrow> (if r2 \<noteq> 0 then 1 else 0, w2)))"

text \<open>
  The first loop of \<^verbatim>\<open>logrotate\<close>:
  \<^verbatim>\<open>for (cnt = num; cnt > 2; cnt--) { ofile = "%s.%d.gz" (cnt - 1); nfile = "%s.%d.gz" (cnt); rename }\<close>
  \<open>len\<close> is the size of both name buffers.
\<close>

function age_gz :: "path \<Rightarrow> nat \<Rightarrow> int \<Rightarrow> world \<Rightarrow> world" where
  "age_gz file len cnt w =
     (if cnt > 2 then
        let ofile = snprintf [] len (file @ ''.'' @ dec (cnt - 1) @ ''.gz'');
            nfile = snprintf [] len (file @ ''.'' @ dec cnt @ ''.gz'')
        in age_gz file len (cnt - 1) (snd (sys_rename ofile nfile w))
      else w)"
  by pat_completeness auto
termination
  by (relation "measure (\<lambda>(file, len, cnt, w). nat cnt)") auto

declare age_gz.simps [simp del]

text \<open>
  The body of the \<^verbatim>\<open>cnt == 2\<close> test inside the second loop:
  \<^verbatim>\<open>snprintf(cmd, len, "gzip %s", nfile); system(cmd); remove(nfile);\<close>
  (\<^verbatim>\<open>cmd\<close> has exactly the room the text needs).
\<close>

definition compress_step :: "path \<Rightarrow> world \<Rightarrow> world" where
  "compress_step nfile w =
     (let len = 5 + length nfile + 1;
          cmd = snprintf [] len (''gzip '' @ nfile)
      in snd (sys_remove nfile (sys_system cmd w)))"

text \<open>
  The second loop:
  \<^verbatim>\<open>for (cnt = num; cnt > 0; cnt--) { ofile = "%s.%d" (cnt - 1); nfile = "%s.%d" (cnt); rename;
       if (cnt == 2 && !access(nfile, F_OK)) { gzip; remove } }\<close>
  It returns the contents of \<^verbatim>\<open>nfile\<close> with the world, because the code after the
  loop renames the active file to \<^verbatim>\<open>nfile\<close>.
\<close>

function age_plain :: "path \<Rightarrow> nat \<Rightarrow> int \<Rightarrow> path \<Rightarrow> world \<Rightarrow> path \<times> world" where
  "age_plain file len cnt nfile0 w =
     (if cnt > 0 then
        let ofile = snprintf [] len (file @ ''.'' @ dec (cnt - 1));
            nfile = snprintf nfile0 len (file @ ''.'' @ dec cnt);
            w1 = snd (sys_rename ofile nfile w);
            w2 = (if cnt = 2 then
                    (case sys_access nfile w1 of
                       (r, wa) \<Rightarrow> if r = 0 then compress_step nfile wa else wa)
                  else w1)
        in age_plain file len (cnt - 1) nfile w2
      else (nfile0, w))"
  by pat_completeness auto
termination
  by (relation "measure (\<lambda>(file, len, cnt, nfile0, w). nat cnt)") auto

declare age_plain.simps [simp del]

text \<open>
  \<^verbatim>\<open>if (rename(file, nfile)) (void)truncate(file, 0); else create(file, st.st_mode, st.st_uid, st.st_gid);\<close>
\<close>

definition rotate_active :: "path \<Rightarrow> path \<Rightarrow> inode \<Rightarrow> world \<Rightarrow> world" where
  "rotate_active file nfile st w =
     (case sys_rename file nfile w of
        (r, w1) \<Rightarrow>
          if r \<noteq> 0 then snd (sys_truncate file 0 w1)
          else snd (create file (st_mode st) (st_uid st) (st_gid st) w1))"

text \<open>
  \<^verbatim>\<open>static int logrotate(char *file, int num, off_t sz)\<close>. The name buffers are
  variable-length arrays of \<^verbatim>\<open>strlen(file) + 10 + 1\<close> bytes, not initialised (the
  model starts them empty; with \<open>num > 0\<close> the second loop writes \<^verbatim>\<open>nfile\<close> before
  it is read). The message of the failed \<^verbatim>\<open>truncate\<close> goes to syslog with
  \<^verbatim>\<open>LOG_ERR | LOG_PERROR\<close>; the model records the level \<^verbatim>\<open>LOG_ERR\<close> (3) and the
  text up to \<^verbatim>\<open>strerror\<close>.
\<close>

definition logrotate :: "path \<Rightarrow> int \<Rightarrow> int \<Rightarrow> world \<Rightarrow> int \<times> world" where
  "logrotate file num sz w =
     (case sys_stat file w of
        (None, w0) \<Rightarrow> (1, w0)
      | (Some st, w0) \<Rightarrow>
          if sz > 0 \<and> S_ISREG (st_mode st) \<and> st_size st > sz then
            if num > 0 then
              let len = length file + 10 + 1;
                  w1 = age_gz file len num w0;
                  (nfile, w2) = age_plain file len num [] w1
              in (0, rotate_active file nfile st w2)
            else
              (case sys_truncate file 0 w0 of
                 (r, w1) \<Rightarrow>
                   if r \<noteq> 0
                   then (0, issue (Syslog 3 (''Failed truncating '' @ file @ '' during logrotate'')) w1)
                   else (0, w1))
          else (0, w0))"

section \<open>checksz, logit and flogit\<close>

text \<open>
  \<^verbatim>\<open>static int checksz(FILE *fp, off_t sz)\<close>: closes the stream and returns 1 when
  the file behind it is larger than \<open>sz\<close>.
\<close>

definition checksz :: "path \<Rightarrow> string \<Rightarrow> int \<Rightarrow> world \<Rightarrow> int \<times> world" where
  "checksz p pend sz w =
     (if sz \<le> 0 then (0, w)
      else (case sys_fstat p w of
              (Some st, w1) \<Rightarrow>
                if st_size st > sz then (1, snd (sys_fclose p pend w1)) else (0, w1)
            | (None, w1) \<Rightarrow> (0, w1)))"

text \<open>
  The loop \<^verbatim>\<open>while ((fgets(buf, len, stdin))) syslog(level, "%s", buf);\<close> of
  \<^verbatim>\<open>logit\<close>. \<open>None\<close> is a loop that never ends: with \<open>len = 1\<close>, \<^verbatim>\<open>fgets\<close>
  returns the empty string for ever.
\<close>

function logit_while :: "int \<Rightarrow> nat \<Rightarrow> string \<Rightarrow> world \<Rightarrow> (int \<times> world) option" where
  "logit_while level len inp w =
     (case fgets len inp of
        None \<Rightarrow> Some (0, w)
      | Some (chunk, rest) \<Rightarrow>
          if chunk = [] then None
          else logit_while level len rest (issue (Syslog level (cstr chunk)) w))"
  by pat_completeness auto
termination
  by (relation "measure (\<lambda>(level, len, inp, w). length inp)") (auto simp: fgets_def Let_def min_def neq_Nil_conv split: if_splits)

declare logit_while.simps [simp del]

text \<open>\<^verbatim>\<open>static int logit(int level, char *buf, size_t len)\<close>; \<open>buf\<close> is the C string in the buffer.\<close>

definition logit :: "int \<Rightarrow> string \<Rightarrow> nat \<Rightarrow> string \<Rightarrow> world \<Rightarrow> (int \<times> world) option" where
  "logit level buf len inp w =
     (if buf \<noteq> [] then Some (0, issue (Syslog level buf) w)
      else logit_while level len inp w)"

text \<open>
  \<^verbatim>\<open>static int flogit(char *logfile, int num, off_t sz, char *buf, size_t len)\<close>.
  \<open>flogit\<close> is the function from the label \<^verbatim>\<open>reopen\<close> on, \<open>flogit_while\<close> the
  loop over standard input with the stream open and \<open>pend\<close> in its buffer.
  \<^verbatim>\<open>buf[0] = 0; goto reopen;\<close> is the call of \<open>flogit\<close> with the empty string for
  \<open>buf\<close>. \<open>inp\<close> is the unread standard input.
\<close>

function flogit :: "path \<Rightarrow> int \<Rightarrow> int \<Rightarrow> string \<Rightarrow> nat \<Rightarrow> string \<Rightarrow> world \<Rightarrow> (int \<times> world) option"
  and flogit_while :: "path \<Rightarrow> int \<Rightarrow> int \<Rightarrow> nat \<Rightarrow> string \<Rightarrow> string \<Rightarrow> world \<Rightarrow> (int \<times> world) option"
  where
  "flogit logfile num sz buf len inp w =
     (case sys_fopen logfile w of
        (False, w0) \<Rightarrow> Some (1, issue (Syslog 3 (''Failed opening '' @ logfile)) w0)
      | (True, w0) \<Rightarrow>
          if buf \<noteq> [] then
            (case stdio_write logfile [] (buf @ [CHR 0x0A]) w0 of
               (pend, w1) \<Rightarrow>
                 (case checksz logfile pend sz (sys_fsync logfile w1) of
                    (r, w3) \<Rightarrow>
                      if r \<noteq> 0 then Some (logrotate logfile num sz w3)
                      else Some (sys_fclose logfile pend w3)))
          else flogit_while logfile num sz len [] inp w0)"
| "flogit_while logfile num sz len pend inp w =
     (case fgets len inp of
        None \<Rightarrow> Some (sys_fclose logfile pend w)
      | Some (chunk, rest) \<Rightarrow>
          if chunk = [] then None
          else
            (case stdio_write logfile pend (cstr chunk) w of
               (pend1, w1) \<Rightarrow>
                 (case checksz logfile pend1 sz (sys_fsync logfile w1) of
                    (r, w3) \<Rightarrow>
                      if r \<noteq> 0
                      then flogit logfile num sz [] len rest (snd (logrotate logfile num sz w3))
                      else flogit_while logfile num sz len pend1 rest w3)))"
  by pat_completeness auto
termination
  by (relation "measure (\<lambda>x. case x of
          Inl (logfile, num, sz, buf, len, inp, w) \<Rightarrow> 2 * length inp + 1
        | Inr (logfile, num, sz, len, pend, inp, w) \<Rightarrow> 2 * length inp)")
     (auto simp: fgets_def Let_def min_def neq_Nil_conv split: if_splits)

declare flogit.simps [simp del] flogit_while.simps [simp del]

section \<open>The command line\<close>

subsection \<open>getopt\<close>

text \<open>
  \<^verbatim>\<open>getopt(argc, argv, optstring)\<close> of libc, called until it returns \<^verbatim>\<open>EOF\<close>:
  the list of its results (the option character returned and \<^verbatim>\<open>optarg\<close>, empty
  for an option without argument) and the operands left from \<^verbatim>\<open>optind\<close> on.
  An unknown option character and a missing argument both return \<^verbatim>\<open>'?'\<close>.
  \<open>posix\<close> stops at the first operand (\<^verbatim>\<open>POSIXLY_CORRECT\<close>); otherwise operands
  are skipped and collected, as GNU getopt does.
\<close>

datatype optkind = Invalid | Flag | With_arg

fun opt_lookup :: "string \<Rightarrow> char \<Rightarrow> optkind" where
  "opt_lookup [] c = Invalid"
| "opt_lookup (x # xs) c =
     (if x = c \<and> c \<noteq> CHR '':'' then
        (case xs of [] \<Rightarrow> Flag | y # _ \<Rightarrow> if y = CHR '':'' then With_arg else Flag)
      else opt_lookup xs c)"

fun getopt_cluster :: "string \<Rightarrow> string \<Rightarrow> string list \<Rightarrow> (char \<times> string) list \<times> string list" where
  "getopt_cluster optstring [] rest = ([], rest)"
| "getopt_cluster optstring (c # cs) rest =
     (case opt_lookup optstring c of
        Invalid \<Rightarrow>
          (case getopt_cluster optstring cs rest of (rs, rest') \<Rightarrow> ((CHR ''?'', []) # rs, rest'))
      | Flag \<Rightarrow>
          (case getopt_cluster optstring cs rest of (rs, rest') \<Rightarrow> ((c, []) # rs, rest'))
      | With_arg \<Rightarrow>
          if cs \<noteq> [] then ([(c, cs)], rest)
          else (case rest of
                  [] \<Rightarrow> ([(CHR ''?'', [])], [])
                | a # rest' \<Rightarrow> ([(c, a)], rest')))"

definition is_option :: "string \<Rightarrow> bool" where
  "is_option a \<longleftrightarrow> (case a of [] \<Rightarrow> False | c # cs \<Rightarrow> c = CHR ''-'' \<and> cs \<noteq> [])"

function getopt_all :: "bool \<Rightarrow> string \<Rightarrow> string list \<Rightarrow> (char \<times> string) list \<times> string list" where
  "getopt_all posix optstring [] = ([], [])"
| "getopt_all posix optstring (a # as) =
     (if a = ''--'' then ([], as)
      else if is_option a then
        (case getopt_cluster optstring (tl a) as of
           (rs, rest) \<Rightarrow>
             (case getopt_all posix optstring rest of (rs', ops) \<Rightarrow> (rs @ rs', ops)))
      else if posix then ([], a # as)
      else (case getopt_all posix optstring as of (rs, ops) \<Rightarrow> (rs, a # ops)))"
  by pat_completeness auto
termination
proof -
  have shorter: "length (snd (getopt_cluster optstring cs as)) \<le> length as" for optstring cs as
    by (induction cs) (auto split: optkind.splits prod.splits list.splits)
  show ?thesis
    by (relation "measure (\<lambda>(posix, optstring, as). length as)")
       (use shorter in \<open>auto simp: less_Suc_eq_le dest: arg_cong [where f = snd]\<close>)
qed

subsection \<open>Priority and rotation arguments\<close>

text \<open>\<^verbatim>\<open>ptr = strchr(arg, c); if (ptr) *ptr++ = 0;\<close>: the text before and after the first \<open>c\<close>.\<close>

definition split_at :: "char \<Rightarrow> string \<Rightarrow> (string \<times> string) option" where
  "split_at c s =
     (if c \<in> set s then Some (takeWhile (\<lambda>x. x \<noteq> c) s, tl (dropWhile (\<lambda>x. x \<noteq> c) s))
      else None)"

text \<open>The tables of \<^verbatim>\<open><syslog.h>\<close> under \<^verbatim>\<open>SYSLOG_NAMES\<close> (glibc).\<close>

definition facilitynames :: "(string \<times> int) list" where
  "facilitynames =
     [(''auth'', 32), (''authpriv'', 80), (''cron'', 72), (''daemon'', 24), (''ftp'', 88),
      (''kern'', 0), (''lpr'', 48), (''mail'', 16), (''mark'', 192), (''news'', 56),
      (''security'', 32), (''syslog'', 40), (''user'', 8), (''uucp'', 64),
      (''local0'', 128), (''local1'', 136), (''local2'', 144), (''local3'', 152),
      (''local4'', 160), (''local5'', 168), (''local6'', 176), (''local7'', 184)]"

definition prioritynames :: "(string \<times> int) list" where
  "prioritynames =
     [(''alert'', 1), (''crit'', 2), (''debug'', 7), (''emerg'', 0), (''err'', 3),
      (''error'', 3), (''info'', 6), (''none'', 16), (''notice'', 5), (''panic'', 0),
      (''warn'', 4), (''warning'', 4)]"

text \<open>\<^verbatim>\<open>static int parse_prio(char *arg, int *f, int *l)\<close>: the return value and the new \<^verbatim>\<open>*f\<close>, \<^verbatim>\<open>*l\<close>.\<close>

definition parse_prio :: "string \<Rightarrow> int \<Rightarrow> int \<Rightarrow> int \<times> int \<times> int" where
  "parse_prio arg f l =
     (let (f', arg') =
            (case split_at (CHR ''.'') arg of
               None \<Rightarrow> (f, arg)
             | Some (a, p) \<Rightarrow> ((case map_of facilitynames a of Some v \<Rightarrow> v | None \<Rightarrow> f), p));
          l' = (case map_of prioritynames arg' of Some v \<Rightarrow> v | None \<Rightarrow> l)
      in (0, f', l'))"

definition isspace :: "char \<Rightarrow> bool" where
  "isspace c \<longleftrightarrow> c \<in> {CHR '' '', CHR 0x09, CHR 0x0A, CHR 0x0B, CHR 0x0C, CHR 0x0D}"

definition isdigit :: "char \<Rightarrow> bool" where
  "isdigit c \<longleftrightarrow> (48 :: nat) \<le> of_char c \<and> (of_char c :: nat) \<le> 57"

fun atoi_digits :: "int \<Rightarrow> string \<Rightarrow> int" where
  "atoi_digits acc [] = acc"
| "atoi_digits acc (c # cs) =
     (if isdigit c then atoi_digits (acc * 10 + (int (of_char c) - 48)) cs else acc)"

text \<open>
  \<^verbatim>\<open>atoi\<close> of glibc, which is \<^verbatim>\<open>(int) strtol(s, NULL, 10)\<close>: white space, a sign,
  digits; \<^verbatim>\<open>strtol\<close> stops at the bounds of \<^verbatim>\<open>long\<close> (64 bits) and the cast keeps
  the low 32 bits.
\<close>

definition atoi :: "string \<Rightarrow> int" where
  "atoi s =
     (let s1 = dropWhile isspace s;
          v = (case s1 of
                 [] \<Rightarrow> 0
               | c # cs \<Rightarrow>
                   if c = CHR ''-'' then - atoi_digits 0 cs
                   else if c = CHR ''+'' then atoi_digits 0 cs
                   else atoi_digits 0 s1)
      in sint (word_of_int (max (- (2 ^ 63)) (min (2 ^ 63 - 1) v)) :: 32 word))"

text \<open>
  Modelled from the spec: \<^verbatim>\<open>strtobytes\<close> is declared in \<^verbatim>\<open>compat.h\<close>, which is not
  among the sources. The spec says of it: SIZE is a byte count that accepts optional
  suffixes for kilobytes/megabytes (decimal or binary, per host convention). This
  definition reads the digits and takes the suffixes \<^verbatim>\<open>k\<close> and \<^verbatim>\<open>M\<close> as decimal
  multiples; anything else after the digits is an error (-1). The function returns an
  \<^verbatim>\<open>int\<close>: a product that does not fit keeps its low 32 bits. \<open>parse_rotation\<close>
  takes the function as a parameter, and what is proved of it for all tokens holds for
  every \<^verbatim>\<open>strtobytes\<close>.
\<close>

definition strtobytes_spec :: "string \<Rightarrow> int" where
  "strtobytes_spec arg =
     (let ds = takeWhile isdigit arg; suffix = dropWhile isdigit arg
      in if suffix = [] then atoi ds
         else if suffix = ''k'' then sint (word_of_int (atoi ds * 1000) :: 32 word)
         else if suffix = ''M'' then sint (word_of_int (atoi ds * 1000000) :: 32 word)
         else -1)"

text \<open>
  \<^verbatim>\<open>static void parse_rotation(char *optarg, off_t *size, int *num)\<close>: the new
  \<^verbatim>\<open>*size\<close> and \<^verbatim>\<open>*num\<close>. \<^verbatim>\<open>strlcpy(buf, optarg, sizeof(buf))\<close> keeps 99 bytes.
\<close>

definition parse_rotation :: "(string \<Rightarrow> int) \<Rightarrow> string \<Rightarrow> int \<Rightarrow> int \<Rightarrow> int \<times> int" where
  "parse_rotation strtobytes optarg size0 num0 =
     (let buf0 = take 99 optarg;
          (buf, cnt) = (case split_at (CHR '':'') buf0 of
                          None \<Rightarrow> (buf0, 0)
                        | Some (a, c) \<Rightarrow> (a, atoi c));
          sz = strtobytes buf
      in (if sz > 0 then sz else size0, if cnt \<noteq> 0 then cnt else num0))"

subsection \<open>The message buffer\<close>

text \<open>
  The loop of \<^verbatim>\<open>main\<close> that joins the operands into \<^verbatim>\<open>char buf[512]\<close>:
  \<^verbatim>\<open>bytes = snprintf(&buf[pos], len, "%s ", argv[optind++]); pos += bytes; len -= bytes;\<close>
  with \<^verbatim>\<open>size_t pos = 0, len = sizeof(buf)\<close> (64 bits, unsigned: the subtraction
  wraps). \<^verbatim>\<open>snprintf\<close> returns the length of the whole text \<^verbatim>\<open>"%s "\<close>, also when
  it stored less; it stores at most \<open>len - 1\<close> bytes and a NUL, and nothing when
  \<open>len = 0\<close>. A store that does not lie within the 512 bytes of \<open>buf\<close> is the
  result \<open>Inl (p, n)\<close>: \<open>n\<close> bytes stored from index \<open>p\<close>.
\<close>

definition append_token ::
  "string \<times> 64 word \<times> 64 word \<Rightarrow> string \<Rightarrow> (nat \<times> nat) + (string \<times> 64 word \<times> 64 word)" where
  "append_token st tok =
     (case st of (buf, pos, len) \<Rightarrow>
        let s = tok @ '' '';
            bytes = length s;
            n = (if len = 0 then 0 else min bytes (unat len - 1) + 1)
        in if n > 0 \<and> unat pos + n > 512 then Inl (unat pos, n)
           else Inr (if n = 0 then buf
                     else take (unat pos) buf @ take (n - 1) s @ [CHR 0x00] @ drop (unat pos + n) buf,
                     pos + of_nat bytes, len - of_nat bytes))"

fun join_args ::
  "string \<times> 64 word \<times> 64 word \<Rightarrow> string list \<Rightarrow> (nat \<times> nat) + (string \<times> 64 word \<times> 64 word)" where
  "join_args st [] = Inr st"
| "join_args st (tok # toks) =
     (case append_token st tok of Inl e \<Rightarrow> Inl e | Inr st' \<Rightarrow> join_args st' toks)"

subsection \<open>main\<close>

record settings =
  opt_facility :: int
  opt_level :: int
  opt_log_opts :: int
  opt_size :: int
  opt_num :: int
  opt_ident :: "string option"
  opt_logfile :: "string option"

text \<open>
  \<^verbatim>\<open>int facility = LOG_USER; int level = LOG_INFO; int log_opts = LOG_NOWAIT;
  off_t size = 200 * 1024; num = 5; ident = NULL, logfile = NULL\<close>
\<close>

definition initial_settings :: settings where
  "initial_settings =
     \<lparr>opt_facility = 8, opt_level = 6, opt_log_opts = 0x10, opt_size = 200 * 1024,
      opt_num = 5, opt_ident = None, opt_logfile = None\<rparr>"

text \<open>\<^verbatim>\<open>static int usage(int code)\<close> prints the help text and returns \<open>code\<close>.\<close>

definition usage :: "int \<Rightarrow> world \<Rightarrow> int \<times> world" where
  "usage code w = (code, issue Print_usage w)"

text \<open>
  The \<^verbatim>\<open>switch\<close> of \<^verbatim>\<open>main\<close> over the results of \<^verbatim>\<open>getopt\<close>: \<open>Inl\<close> is a
  \<^verbatim>\<open>return\<close> from inside the loop with the exit status, \<open>Inr\<close> the settings when
  \<^verbatim>\<open>getopt\<close> has returned \<^verbatim>\<open>EOF\<close>.
\<close>

fun main_opts ::
  "(string \<Rightarrow> int) \<Rightarrow> (char \<times> string) list \<Rightarrow> settings \<Rightarrow> world \<Rightarrow> (int \<times> world) + (settings \<times> world)" where
  "main_opts strtobytes [] s w = Inr (s, w)"
| "main_opts strtobytes ((c, optarg) # rs) s w =
     (if c = CHR ''f'' then main_opts strtobytes rs (s\<lparr>opt_logfile := Some optarg\<rparr>) w
      else if c = CHR ''p'' then
        (case parse_prio optarg (opt_facility s) (opt_level s) of
           (r, f, l) \<Rightarrow>
             if r \<noteq> 0 then Inl (usage 1 w)
             else main_opts strtobytes rs (s\<lparr>opt_facility := f, opt_level := l\<rparr>) w)
      else if c = CHR ''r'' then
        (case parse_rotation strtobytes optarg (opt_size s) (opt_num s) of
           (sz, n) \<Rightarrow> main_opts strtobytes rs (s\<lparr>opt_size := sz, opt_num := n\<rparr>) w)
      else if c = CHR ''s'' then main_opts strtobytes rs (s\<lparr>opt_log_opts := opt_log_opts s OR 0x20\<rparr>) w
      else if c = CHR ''t'' then main_opts strtobytes rs (s\<lparr>opt_ident := Some optarg\<rparr>) w
      else if c = CHR ''v'' then Inl (0, issue Print_version w)
      else Inl (usage 0 w))"

datatype outcome = Exit int world | Never_returns | Out_of_bounds nat nat

text \<open>
  \<^verbatim>\<open>int main(int argc, char *argv[])\<close>. \<open>args\<close> is \<^verbatim>\<open>argv\<close> from \<^verbatim>\<open>argv[1]\<close>
  on, \<open>inp\<close> the bytes on standard input. \<open>Exit\<close> carries the exit status;
  \<open>Out_of_bounds\<close> is a store outside \<^verbatim>\<open>buf\<close>, after which C defines nothing.
\<close>

definition main :: "(string \<Rightarrow> int) \<Rightarrow> string list \<Rightarrow> string \<Rightarrow> world \<Rightarrow> outcome" where
  "main strtobytes args inp w =
     (case getopt_all (environ (os w) ''POSIXLY_CORRECT'' \<noteq> None) ''?f:p:r:st:v'' args of
        (rs, operands) \<Rightarrow>
          (case main_opts strtobytes rs initial_settings w of
             Inl (code, w1) \<Rightarrow> Exit code w1
           | Inr (s, w1) \<Rightarrow>
               let ident = (case opt_ident s of
                              Some i \<Rightarrow> Some i
                            | None \<Rightarrow> (case environ (os w1) ''LOGNAME'' of
                                         Some v \<Rightarrow> Some v
                                       | None \<Rightarrow> environ (os w1) ''USER''));
                   buf0 = (replicate 512 (CHR 0x00), 0, 512)
               in (case (if operands \<noteq> [] then join_args buf0 operands else Inr buf0) of
                     Inl (p, n) \<Rightarrow> Out_of_bounds p n
                   | Inr (buf, pos, len) \<Rightarrow>
                       let w2 = issue (Openlog ident (opt_log_opts s) (opt_facility s)) w1;
                           r = (case opt_logfile s of
                                  Some f \<Rightarrow> flogit f (opt_num s) (opt_size s) (cstr buf) 512 inp w2
                                | None \<Rightarrow> logit (opt_level s) (cstr buf) 512 inp w2)
                       in (case r of
                             None \<Rightarrow> Never_returns
                           | Some (rc, w3) \<Rightarrow> Exit rc (issue Closelog w3)))))"

section \<open>Observations\<close>

text \<open>The \<^verbatim>\<open>rename\<close> calls issued so far, oldest first.\<close>

fun is_rename :: "call \<Rightarrow> bool" where
  "is_rename (Rename a b) = True"
| "is_rename c = False"

definition renames :: "world \<Rightarrow> call list" where
  "renames w = filter is_rename (trace w)"

text \<open>The names of the generations: \<^verbatim>\<open><path>.c.gz\<close> and \<^verbatim>\<open><path>.c\<close>.\<close>

definition gz_name :: "path \<Rightarrow> int \<Rightarrow> path" where
  "gz_name file c = file @ ''.'' @ dec c @ ''.gz''"

definition gen_name :: "path \<Rightarrow> int \<Rightarrow> path" where
  "gen_name file c = file @ ''.'' @ dec c"

text \<open>
  The condition under which \<^verbatim>\<open>logrotate\<close> acts: \<^verbatim>\<open>stat\<close> succeeds, and
  \<^verbatim>\<open>sz > 0 && S_ISREG(st.st_mode) && st.st_size > sz\<close>.
\<close>

definition rotates :: "path \<Rightarrow> int \<Rightarrow> world \<Rightarrow> bool" where
  "rotates file sz w \<longleftrightarrow>
     \<not> refuse (os w) (Stat file) \<and>
     (case files w file of
        None \<Rightarrow> False
      | Some st \<Rightarrow> sz > 0 \<and> S_ISREG (st_mode st) \<and> st_size st > sz)"

definition exit_status :: "outcome \<Rightarrow> int option" where
  "exit_status out =
     (case out of Exit rc w \<Rightarrow> Some rc | Never_returns \<Rightarrow> None | Out_of_bounds p n \<Rightarrow> None)"

text \<open>
  Worlds for the concrete cases below: a system that refuses nothing, with umask 022,
  no \<^verbatim>\<open>gzip\<close> (commands change nothing), and the stdio of a stream on a regular
  file: fully buffered, with a buffer of 4096 bytes that is written out when it is
  full; a regular file of mode 0644.
\<close>

definition block_buffered :: "string \<Rightarrow> nat" where
  "block_buffered b = (if length b < 4096 then 0 else length b)"

definition plain_os :: os_env where
  "plain_os =
     \<lparr>refuse = (\<lambda>c. False), umask = 0x12, euid = 1000, egid = 1000,
      shell = (\<lambda>cmd fs. fs), stdio_flush = block_buffered, environ = Map.empty\<rparr>"

definition reg_file :: "string \<Rightarrow> inode" where
  "reg_file d = \<lparr>st_mode = 0x81A4, st_uid = 1000, st_gid = 1000, data = d\<rparr>"

definition world_with :: "(path \<times> inode) list \<Rightarrow> world" where
  "world_with fs = \<lparr>files = map_of fs, os = plain_os, trace = []\<rparr>"

text \<open>
  The world in which \<^verbatim>\<open>logrotate\<close> reaches \<^verbatim>\<open>rename(file, nfile)\<close>: after
  \<^verbatim>\<open>stat\<close> and both loops.
\<close>

definition aged :: "path \<Rightarrow> int \<Rightarrow> world \<Rightarrow> world" where
  "aged file num w =
     snd (age_plain file (length file + 10 + 1) num []
            (age_gz file (length file + 10 + 1) num (snd (sys_stat file w))))"

text \<open>A system that refuses exactly the call \<open>c\<close>.\<close>

definition refusing :: "call \<Rightarrow> world \<Rightarrow> world" where
  "refusing c w = w\<lparr>os := (os w)\<lparr>refuse := (\<lambda>x. x = c)\<rparr>\<rparr>"

text \<open>
  What the loop of \<^verbatim>\<open>flogit\<close> writes: the strings that the successive calls of
  \<^verbatim>\<open>fgets(buf, len, stdin)\<close> leave in \<open>buf\<close> until \<^verbatim>\<open>NULL\<close>, each as
  \<^verbatim>\<open>fputs\<close> writes it (up to its first NUL byte).
\<close>

function chunks :: "nat \<Rightarrow> string \<Rightarrow> string list" where
  "chunks len inp =
     (case fgets len inp of
        None \<Rightarrow> []
      | Some (chunk, rest) \<Rightarrow> if chunk = [] then [] else cstr chunk # chunks len rest)"
  by pat_completeness auto
termination
  by (relation "measure (\<lambda>(len, inp). length inp)")
     (auto simp: fgets_def Let_def min_def neq_Nil_conv split: if_splits)

declare chunks.simps [simp del]

text \<open>The writes of one call of \<^verbatim>\<open>flogit\<close>: the message and a newline, or the chunks of standard input.\<close>

definition lines_written :: "string \<Rightarrow> nat \<Rightarrow> string \<Rightarrow> string list" where
  "lines_written buf len inp = (if buf \<noteq> [] then [buf @ [CHR 0x0A]] else chunks len inp)"

text \<open>
  The size of the file on disk after each of a list of writes, for a file of \<open>n\<close>
  bytes and a stream holding \<open>pend\<close>: the threshold of the spec is compared with
  these.
\<close>

fun sizes_after :: "(string \<Rightarrow> nat) \<Rightarrow> nat \<Rightarrow> string \<Rightarrow> string list \<Rightarrow> nat list" where
  "sizes_after fl n pend [] = []"
| "sizes_after fl n pend (l # ls) =
     (let b = pend @ l; k = fl b
      in (n + length (take k b)) # sizes_after fl (n + length (take k b)) (drop k b) ls)"

text \<open>The contents of a file, empty when it does not exist; the calls issued between two worlds.\<close>

definition initial_data :: "world \<Rightarrow> path \<Rightarrow> string" where
  "initial_data w p = (case files w p of None \<Rightarrow> [] | Some f \<Rightarrow> data f)"

definition new_calls :: "world \<Rightarrow> world \<Rightarrow> call list" where
  "new_calls w w' = drop (length (trace w)) (trace w')"

text \<open>
  A rotation of the active file is a \<^verbatim>\<open>rename\<close> call whose source is the active
  path; \<open>rotations\<close> counts them.
\<close>

fun moves :: "path \<Rightarrow> call \<Rightarrow> bool" where
  "moves file (Rename a b) = (a = file)"
| "moves file c = False"

definition rotations :: "path \<Rightarrow> world \<Rightarrow> nat" where
  "rotations file w = length (filter (moves file) (trace w))"

text \<open>The calls issued and the file at a path when the process has exited.\<close>

definition exit_trace :: "outcome \<Rightarrow> call list" where
  "exit_trace out =
     (case out of Exit rc w \<Rightarrow> trace w | Never_returns \<Rightarrow> [] | Out_of_bounds a n \<Rightarrow> [])"

definition exit_files :: "outcome \<Rightarrow> path \<Rightarrow> inode option" where
  "exit_files out p = (case out of Exit rc w \<Rightarrow> files w p | Never_returns \<Rightarrow> None | Out_of_bounds a n \<Rightarrow> None)"

section \<open>Facts about the calls\<close>

lemma os_issue [simp]: "os (issue c w) = os w"
  and files_issue [simp]: "files (issue c w) = files w"
  and trace_issue [simp]: "trace (issue c w) = trace w @ [c]"
  by (simp_all add: issue_def)

lemma renames_issue [simp]: "renames (issue c w) = renames w @ (if is_rename c then [c] else [])"
  by (simp add: renames_def)

lemma sys_rename_os [simp]: "os (snd (sys_rename a b w)) = os w"
  and sys_rename_trace [simp]: "trace (snd (sys_rename a b w)) = trace w @ [Rename a b]"
  by (simp_all add: sys_rename_def split: option.splits)

lemma sys_rename_renames [simp]: "renames (snd (sys_rename a b w)) = renames w @ [Rename a b]"
  by (simp add: renames_def)

lemma sys_rename_files:
  "files (snd (sys_rename a b w)) =
     (case files w a of
        None \<Rightarrow> files w
      | Some f \<Rightarrow> if refuse (os w) (Rename a b) then files w else (files w)(a := None, b \<mapsto> f))"
  by (simp add: sys_rename_def split: option.splits)

lemma sys_rename_fst:
  "fst (sys_rename a b w) = (if files w a = None \<or> refuse (os w) (Rename a b) then -1 else 0)"
  by (simp add: sys_rename_def split: option.splits)

lemma sys_access_os [simp]: "os (snd (sys_access p w)) = os w"
  and sys_access_files [simp]: "files (snd (sys_access p w)) = files w"
  and sys_access_trace [simp]: "trace (snd (sys_access p w)) = trace w @ [Access p]"
  by (simp_all add: sys_access_def)

lemma sys_access_fst:
  "fst (sys_access p w) = (if files w p \<noteq> None \<and> \<not> refuse (os w) (Access p) then 0 else -1)"
  by (simp add: sys_access_def)

lemma sys_system_os [simp]: "os (sys_system cmd w) = os w"
  and sys_system_trace [simp]: "trace (sys_system cmd w) = trace w @ [System cmd]"
  by (simp_all add: sys_system_def)

lemma sys_system_files:
  "files (sys_system cmd w) = (if refuse (os w) (System cmd) then files w else shell (os w) cmd (files w))"
  by (simp add: sys_system_def)

lemma sys_remove_os [simp]: "os (snd (sys_remove p w)) = os w"
  and sys_remove_trace [simp]: "trace (snd (sys_remove p w)) = trace w @ [Remove p]"
  by (simp_all add: sys_remove_def)

lemma sys_remove_files:
  "files (snd (sys_remove p w)) = (if refuse (os w) (Remove p) then files w else (files w)(p := None))"
  by (auto simp add: sys_remove_def)

lemma sys_truncate_os [simp]: "os (snd (sys_truncate p n w)) = os w"
  and sys_truncate_trace [simp]: "trace (snd (sys_truncate p n w)) = trace w @ [Truncate p n]"
  by (simp_all add: sys_truncate_def split: option.splits)

lemma sys_truncate_files:
  "files (snd (sys_truncate p 0 w)) =
     (case files w p of
        None \<Rightarrow> files w
      | Some f \<Rightarrow> if refuse (os w) (Truncate p 0) then files w else (files w)(p \<mapsto> f\<lparr>data := []\<rparr>))"
  by (simp add: sys_truncate_def split: option.splits)

lemma sys_mknod_os [simp]: "os (snd (sys_mknod p m w)) = os w"
  and sys_mknod_trace [simp]: "trace (snd (sys_mknod p m w)) = trace w @ [Mknod p m]"
  by (simp_all add: sys_mknod_def)

lemma sys_chown_os [simp]: "os (snd (sys_chown p u g w)) = os w"
  and sys_chown_trace [simp]: "trace (snd (sys_chown p u g w)) = trace w @ [Chown p u g]"
  by (simp_all add: sys_chown_def split: option.splits)

lemma sys_stat_os [simp]: "os (snd (sys_stat p w)) = os w"
  and sys_stat_files [simp]: "files (snd (sys_stat p w)) = files w"
  and sys_stat_trace [simp]: "trace (snd (sys_stat p w)) = trace w @ [Stat p]"
  by (simp_all add: sys_stat_def)

lemma sys_stat_fst: "fst (sys_stat p w) = (if refuse (os w) (Stat p) then None else files w p)"
  by (simp add: sys_stat_def)

lemma compress_step_os [simp]: "os (compress_step nfile w) = os w"
  and compress_step_trace [simp]:
    "trace (compress_step nfile w) = trace w @ [System (''gzip '' @ nfile), Remove nfile]"
  by (simp_all add: compress_step_def snprintf_def)

lemma compress_step_files:
  "files (compress_step nfile w) =
     (let fs = (if refuse (os w) (System (''gzip '' @ nfile)) then files w
                else shell (os w) (''gzip '' @ nfile) (files w))
      in if refuse (os w) (Remove nfile) then fs else fs(nfile := None))"
  by (simp add: compress_step_def snprintf_def sys_remove_files sys_system_files Let_def)

lemma age_gz_os [simp]: "os (age_gz file len cnt w) = os w"
  by (induction "file" len cnt w rule: age_gz.induct) (subst age_gz.simps, simp add: Let_def)

lemma age_gz_renames:
  "renames (age_gz file len cnt w) =
     renames w @ map (\<lambda>c. Rename (snprintf [] len (gz_name file (c - 1))) (snprintf [] len (gz_name file c)))
                     (rev [3..cnt])"
proof (induction "file" len cnt w rule: age_gz.induct)
  case (1 fl len cnt w)
  show ?case
  proof (cases "cnt > 2")
    case True
    then have "[3..cnt] = [3..cnt - 1] @ [cnt]"
      by (simp add: upto_rec2)
    with True "1.IH" show ?thesis
      by (subst age_gz.simps) (simp add: Let_def gz_name_def)
  next
    case False
    then show ?thesis by (subst age_gz.simps) simp
  qed
qed

lemma age_plain_os [simp]: "os (snd (age_plain file len cnt nfile0 w)) = os w"
  by (induction "file" len cnt nfile0 w rule: age_plain.induct)
     (subst age_plain.simps, simp add: Let_def case_prod_beta)

lemma age_plain_renames:
  "0 < len \<Longrightarrow>
   renames (snd (age_plain file len cnt nfile0 w)) =
     renames w @ map (\<lambda>c. Rename (snprintf [] len (gen_name file (c - 1))) (snprintf [] len (gen_name file c)))
                     (rev [1..cnt])"
proof (induction "file" len cnt nfile0 w rule: age_plain.induct)
  case (1 fl len cnt nfile0 w)
  show ?case
  proof (cases "cnt > 0")
    case True
    then have "[1..cnt] = [1..cnt - 1] @ [cnt]"
      by (simp add: upto_rec2)
    with True "1.IH" "1.prems" show ?thesis
      by (subst age_plain.simps) (simp add: Let_def gen_name_def case_prod_beta renames_def snprintf_def)
  next
    case False
    then show ?thesis by (subst age_plain.simps) simp
  qed
qed


lemma age_plain_fst:
  "0 < len \<Longrightarrow>
   fst (age_plain file len cnt nfile0 w) =
     (if cnt > 0 then snprintf [] len (gen_name file 1) else nfile0)"
proof (induction "file" len cnt nfile0 w rule: age_plain.induct)
  case (1 fl len cnt nfile0 w)
  show ?case
  proof (cases "cnt > 0")
    case True
    show ?thesis
    proof (cases "cnt = 1")
      case True
      then have "fst (age_plain fl len (cnt - 1) nf w') = nf" for nf w'
        by (subst age_plain.simps) simp
      with True "1.prems" show ?thesis
        by (subst age_plain.simps) (simp add: Let_def snprintf_def gen_name_def)
    next
      case False
      with \<open>cnt > 0\<close> "1.IH" "1.prems" show ?thesis
        by (subst age_plain.simps) (simp add: Let_def)
    qed
  next
    case False
    then show ?thesis by (subst age_plain.simps) simp
  qed
qed

lemma digits_nonempty: "digits n \<noteq> []"
  by (subst digits.simps) simp

lemma length_digits: "n < 10 ^ k \<Longrightarrow> 0 < k \<Longrightarrow> length (digits n) \<le> k"
proof (induction k arbitrary: n)
  case 0
  then show ?case by simp
next
  case (Suc k)
  show ?case
  proof (cases "n < 10")
    case True
    then show ?thesis by (subst digits.simps) simp
  next
    case False
    then have k: "0 < k" using Suc.prems by (cases k) auto
    from Suc.prems have "n div 10 < 10 ^ k" by (simp add: less_mult_imp_div_less mult.commute)
    from Suc.IH [OF this k] False show ?thesis by (subst digits.simps) simp
  qed
qed

lemma length_dec: "0 \<le> c \<Longrightarrow> c < 10 ^ k \<Longrightarrow> 0 < k \<Longrightarrow> length (dec c) \<le> k"
  using length_digits [of "nat c" k] by (simp add: dec_def nat_less_iff)

lemma snprintf_gen_name:
  "0 \<le> c \<Longrightarrow> c < 1000000000 \<Longrightarrow> length file + 10 < len \<Longrightarrow>
   snprintf old len (gen_name file c) = gen_name file c"
  using length_dec [of c 9] by (simp add: snprintf_def gen_name_def)

lemma snprintf_gz_name:
  "0 \<le> c \<Longrightarrow> c < 1000000 \<Longrightarrow> length file + 10 < len \<Longrightarrow>
   snprintf old len (gz_name file c) = gz_name file c"
  using length_dec [of c 6] by (simp add: snprintf_def gz_name_def)

lemma dec_1: "dec 1 = ''1''"
  by (simp add: dec_def digits.simps digit_char_def)

lemma gen_name_1: "gen_name file 1 = file @ ''.1''"
  by (simp add: gen_name_def dec_1)

lemma dec_million: "dec 1000000 = ''1000000''" "dec 999999 = ''999999''"
  by (simp_all add: dec_def digits.simps digit_char_def)

lemma create_os [simp]: "os (snd (create p m u g w)) = os w"
  by (simp add: create_def case_prod_beta)

lemma rotate_active_os [simp]: "os (rotate_active file nfile st w) = os w"
  by (simp add: rotate_active_def case_prod_beta)

lemma rotate_active_renames [simp]: "renames (rotate_active file nfile st w) = renames w @ [Rename file nfile]"
  by (simp add: rotate_active_def case_prod_beta renames_def create_def)

lemma logrotate_renames:
  assumes "rotates file sz w" and "num > 0"
  shows "renames (snd (logrotate file num sz w)) =
     renames w
     @ map (\<lambda>c. Rename (snprintf [] (length file + 10 + 1) (gz_name file (c - 1)))
                        (snprintf [] (length file + 10 + 1) (gz_name file c))) (rev [3..num])
     @ map (\<lambda>c. Rename (snprintf [] (length file + 10 + 1) (gen_name file (c - 1)))
                        (snprintf [] (length file + 10 + 1) (gen_name file c))) (rev [1..num])
     @ [Rename file (file @ ''.1'')]"
proof -
  from assms obtain st where st: "sys_stat file w = (Some st, issue (Stat file) w)"
    and c: "sz > 0" "S_ISREG (st_mode st)" "st_size st > sz"
    by (auto simp: rotates_def sys_stat_def split: option.splits)
  show ?thesis
    using c assms(2)
    by (simp add: logrotate_def st Let_def case_prod_beta age_plain_renames age_gz_renames
          age_plain_fst gen_name_1 snprintf_def)
qed


section \<open>The order of the renames (C1)\<close>

lemma sys_rename_missing:
  "files w old = None \<Longrightarrow> sys_rename old new w = (-1, issue (Rename old new) w)"
  by (simp add: sys_rename_def)

lemma logrotate_renames_bounded:
  assumes "rotates file sz w" and "0 < num" and "num < 1000000"
  shows "renames (snd (logrotate file num sz w)) =
     renames w
     @ map (\<lambda>c. Rename (gz_name file (c - 1)) (gz_name file c)) (rev [3..num])
     @ map (\<lambda>c. Rename (gen_name file (c - 1)) (gen_name file c)) (rev [1..num])
     @ [Rename file (gen_name file 1)]"
proof -
  have gz: "map (\<lambda>c. Rename (snprintf [] (length file + 10 + 1) (gz_name file (c - 1)))
                        (snprintf [] (length file + 10 + 1) (gz_name file c))) (rev [3..num])
          = map (\<lambda>c. Rename (gz_name file (c - 1)) (gz_name file c)) (rev [3..num])"
    using assms(3) by (intro map_cong refl) (simp add: snprintf_gz_name)
  have gen: "map (\<lambda>c. Rename (snprintf [] (length file + 10 + 1) (gen_name file (c - 1)))
                        (snprintf [] (length file + 10 + 1) (gen_name file c))) (rev [1..num])
          = map (\<lambda>c. Rename (gen_name file (c - 1)) (gen_name file c)) (rev [1..num])"
    using assms(3) by (intro map_cong refl) (simp add: snprintf_gen_name)
  show ?thesis
    unfolding logrotate_renames [OF assms(1,2)] gz gen by (simp add: gen_name_1)
qed

lemma logrotate_first_rename:
  assumes "rotates file sz w" and "2 < num"
  shows "renames (snd (logrotate file num sz w)) ! length (renames w) =
     Rename (snprintf [] (length file + 10 + 1) (gz_name file (num - 1)))
            (snprintf [] (length file + 10 + 1) (gz_name file num))"
proof -
  from assms(2) have "[3..num] = [3..num - 1] @ [num]"
    by (simp add: upto_rec2)
  then have u: "rev [3..num] = num # rev [3..num - 1]" by simp
  from assms(2) have "0 < num" by simp
  from logrotate_renames [OF assms(1) this] show ?thesis
    unfolding u by (simp add: nth_append)
qed

text \<open>
  C1. A rotation with \<open>N \<ge> 1\<close> generations on a regular file larger than the
  threshold issues its renames in the order: compressed generations from \<open>N\<close> down to
  3, uncompressed generations from \<open>N\<close> down to 1, then the active file to
  \<^verbatim>\<open><path>.1\<close>. \<open>logrotate_renames\<close> is that order for every \<open>N\<close>, with the names
  as \<^verbatim>\<open>snprintf\<close> leaves them in buffers of \<^verbatim>\<open>strlen(file) + 10 + 1\<close> bytes;
  \<open>logrotate_renames_bounded\<close> shows that they are the names of the claim for
  \<open>N < 1000000\<close>, and \<open>sys_rename_missing\<close> that a rename of a missing source changes
  nothing. From \<open>N = 1000000\<close> on the buffer is one byte short for
  \<^verbatim>\<open>.1000000.gz\<close>: on \<^verbatim>\<open>/tmp/x\<close> the first rename of the rotation has the target
  \<^verbatim>\<open>/tmp/x.1000000.g\<close>, not \<^verbatim>\<open>/tmp/x.1000000.gz\<close>.
\<close>

theorem logrotate_truncates_gz_name:
  "rotates ''/tmp/x'' 1 (world_with [(''/tmp/x'', reg_file ''ab'')]) \<and>
   renames (snd (logrotate ''/tmp/x'' 1000000 1 (world_with [(''/tmp/x'', reg_file ''ab'')]))) ! 0
     = Rename ''/tmp/x.999999.gz'' ''/tmp/x.1000000.g''"
proof -
  let ?w = "world_with [(''/tmp/x'', reg_file ''ab'')]"
  have r: "rotates ''/tmp/x'' 1 ?w"
    by (simp add: rotates_def world_with_def plain_os_def reg_file_def S_ISREG_def S_IFMT_def
          S_IFREG_def st_size_def)
  have e: "length (renames ?w) = 0"
    by (simp add: renames_def world_with_def)
  have n: "snprintf [] (length ''/tmp/x'' + 10 + 1) (gz_name ''/tmp/x'' (1000000 - 1)) = ''/tmp/x.999999.gz''"
          "snprintf [] (length ''/tmp/x'' + 10 + 1) (gz_name ''/tmp/x'' 1000000) = ''/tmp/x.1000000.g''"
    by (simp_all add: gz_name_def dec_million snprintf_def)
  have "(2::int) < 1000000" by simp
  from logrotate_first_rename [OF r this] show ?thesis
    unfolding e n using r by simp
qed

section \<open>Unknown options (C9)\<close>

lemma parse_prio_returns_0: "fst (parse_prio arg f l) = 0"
  by (simp add: parse_prio_def Let_def split: prod.splits option.splits)

lemma main_opts_unknown:
  "CHR ''?'' \<in> fst ` set rs \<Longrightarrow> \<exists>w'. main_opts sb rs s w = Inl (0, w')"
proof (induction rs arbitrary: s w)
  case Nil
  then show ?case by simp
next
  case (Cons r rs)
  obtain c optarg where r: "r = (c, optarg)" by (cases r)
  show ?case
  proof (cases "c = CHR ''?''")
    case True
    then show ?thesis by (simp add: r usage_def)
  next
    case False
    with Cons.prems r have "CHR ''?'' \<in> fst ` set rs" by auto
    from Cons.IH [OF this] show ?thesis
      using parse_prio_returns_0 [of optarg "opt_facility s" "opt_level s"]
      by (auto simp: r usage_def split: prod.splits)
  qed
qed

lemma unknown_flag_reported:
  assumes "c \<notin> set ''?fprstv''" and "c # cs \<noteq> ''-''"
  shows "\<exists>rs. fst (getopt_all posix ''?f:p:r:st:v'' ((CHR ''-'' # c # cs) # rest)) = (CHR ''?'', []) # rs"
proof -
  from assms(1) have h: "opt_lookup ''?f:p:r:st:v'' c = Invalid" by simp blast
  have "getopt_cluster ''?f:p:r:st:v'' (c # cs) rest =
      (case getopt_cluster ''?f:p:r:st:v'' cs rest of (rs, rest') \<Rightarrow> ((CHR ''?'', []) # rs, rest'))"
    by (simp only: getopt_cluster.simps h optkind.case)
  with assms(2) show ?thesis
    by (simp add: is_option_def split: prod.splits del: getopt_cluster.simps)
qed

text \<open>
  C9, as the code has it. \<^verbatim>\<open>getopt\<close> returns \<^verbatim>\<open>'?'\<close> for an option character
  that is not in \<^verbatim>\<open>"?f:p:r:st:v"\<close> (\<open>unknown_flag_reported\<close>), and \<^verbatim>\<open>main\<close> answers
  it in \<^verbatim>\<open>default: return usage(0);\<close>. Whenever \<^verbatim>\<open>getopt\<close> reports \<^verbatim>\<open>'?'\<close> for
  some option of the invocation, the process exits with status 0: at that option, or
  at a \<^verbatim>\<open>-v\<close> before it.
\<close>

theorem unknown_option_exits_0:
  "CHR ''?'' \<in> fst ` set (fst (getopt_all (environ (os w) ''POSIXLY_CORRECT'' \<noteq> None) ''?f:p:r:st:v'' args))
   \<Longrightarrow> exit_status (main sb args inp w) = Some 0"
proof -
  assume h: "CHR ''?'' \<in> fst ` set (fst (getopt_all (environ (os w) ''POSIXLY_CORRECT'' \<noteq> None) ''?f:p:r:st:v'' args))"
  obtain rs operands where
    g: "getopt_all (environ (os w) ''POSIXLY_CORRECT'' \<noteq> None) ''?f:p:r:st:v'' args = (rs, operands)"
    by (cases "getopt_all (environ (os w) ''POSIXLY_CORRECT'' \<noteq> None) ''?f:p:r:st:v'' args")
  with h have "CHR ''?'' \<in> fst ` set rs" by simp
  from main_opts_unknown [OF this, of sb initial_settings w]
  obtain w' where "main_opts sb rs initial_settings w = Inl (0, w')" by blast
  with g show ?thesis by (simp add: main_def exit_status_def)
qed

theorem unknown_option_exits_0_witness:
  "CHR ''?'' \<in> fst ` set (fst (getopt_all (environ (os (world_with [])) ''POSIXLY_CORRECT'' \<noteq> None)
                                   ''?f:p:r:st:v'' [''-s'', ''-x'', ''hello'']))
   \<and> exit_status (main strtobytes_spec [''-s'', ''-x'', ''hello''] [] (world_with [])) = Some 0"
  using unknown_option_exits_0 [of "world_with []" "[''-s'', ''-x'', ''hello'']" strtobytes_spec "[]"]
  by (simp add: world_with_def plain_os_def is_option_def)

text \<open>
  C9 as the claim states it (a nonzero exit status) fails: \<^verbatim>\<open>logger -x\<close> exits with
  status 0.
\<close>

theorem unknown_option_status_counterexample:
  "exit_status (main strtobytes_spec [''-x''] [] (world_with [])) = Some 0"
  by (simp add: main_def exit_status_def world_with_def plain_os_def is_option_def usage_def)

section \<open>The message buffer (C10)\<close>

lemma append_token_fits:
  assumes "unat pos + (length tok + 1) < 512" and "unat len = 512 - unat pos" and "length buf = 512"
  shows "\<exists>buf'. append_token (buf, pos, len) tok
            = Inr (buf', pos + of_nat (length tok + 1), len - of_nat (length tok + 1))
          \<and> length buf' = 512
          \<and> unat (pos + of_nat (length tok + 1)) = unat pos + (length tok + 1)
          \<and> unat (len - of_nat (length tok + 1)) = 512 - (unat pos + (length tok + 1))"
proof -
  define n where "n = length tok + 1"
  define nw :: "64 word" where "nw = of_nat n"
  have small: "n < 2 ^ LENGTH(64)"
    using assms(1) by (simp add: n_def)
  have n: "unat nw = n"
    unfolding nw_def by (rule of_nat_inverse [OF refl small])
  have "unat pos + unat nw < 2 ^ LENGTH(64)"
    using assms(1) by (simp add: n n_def)
  then have p: "unat (pos + nw) = unat pos + n"
    by (simp only: unat_add_lem [THEN iffD1] n)
  have le: "nw \<le> len"
    using assms(1,2) by (simp add: word_le_nat_alt n n_def)
  have l: "unat (len - nw) = 512 - (unat pos + n)"
    using assms(1,2) by (simp add: unat_sub [OF le] n n_def)
  have len0: "len \<noteq> 0"
    using assms(1,2) by (auto simp flip: unat_0_iff)
  have m: "min n (unat len - 1) = n"
    using assms(1,2) by (simp add: n_def)
  have "append_token (buf, pos, len) tok =
      Inr (take (unat pos) buf @ take n (tok @ '' '') @ [CHR 0x00] @ drop (unat pos + (n + 1)) buf,
           pos + nw, len - nw)"
  proof -
    have n': "Suc (length tok) = n" by (simp add: n_def)
    have m': "min n (unat len - Suc 0) = n" using m by simp
    have w': "word_of_nat n = nw" by (simp add: nw_def)
    have "\<not> 511 < unat pos + n" using assms(1) by (simp add: n_def)
    then show ?thesis
      using len0 by (simp add: append_token_def Let_def n' m' w' del: of_nat_add of_nat_Suc)
  qed
  moreover have "length (take (unat pos) buf @ take n (tok @ '' '') @ [CHR 0x00] @ drop (unat pos + (n + 1)) buf) = 512"
    using assms(1,3) by (simp add: n_def)
  ultimately show ?thesis
    using p l unfolding nw_def n_def by blast
qed

lemma join_args_fits:
  assumes "unat pos + sum_list (map (\<lambda>t. length t + 1) toks) < 512"
    and "unat len = 512 - unat pos" and "length buf = 512"
  shows "\<exists>buf' pos' len'. join_args (buf, pos, len) toks = Inr (buf', pos', len')
          \<and> unat pos' = unat pos + sum_list (map (\<lambda>t. length t + 1) toks)
          \<and> unat len' = 512 - unat pos' \<and> length buf' = 512"
  using assms
proof (induction toks arbitrary: buf pos len)
  case Nil
  then show ?case by simp
next
  case (Cons tok toks)
  from Cons.prems(1) have a: "unat pos + (length tok + 1) < 512" by simp
  from append_token_fits [OF a Cons.prems(2,3)] obtain buf1 where
    s: "append_token (buf, pos, len) tok
            = Inr (buf1, pos + of_nat (length tok + 1), len - of_nat (length tok + 1))"
    "length buf1 = 512"
    "unat (pos + of_nat (length tok + 1)) = unat pos + (length tok + 1)"
    "unat (len - of_nat (length tok + 1)) = 512 - (unat pos + (length tok + 1))"
    by blast
  have b: "unat (pos + of_nat (length tok + 1)) + sum_list (map (\<lambda>t. length t + 1) toks) < 512"
    using Cons.prems(1) by (simp only: s(3)) simp
  have c: "unat (len - of_nat (length tok + 1)) = 512 - unat (pos + of_nat (length tok + 1))"
    by (simp only: s(3,4))
  from Cons.IH [OF b c s(2)] show ?case
    by (simp only: join_args.simps s(1) sum.case s(3)) (auto simp: add.assoc)
qed

text \<open>
  C10. The claim is that the loop joining the operands keeps \<^verbatim>\<open>pos\<close> below 512 and
  \<^verbatim>\<open>len\<close> equal to \<open>512 - pos\<close>, and never stores outside \<^verbatim>\<open>buf\<close>. That holds
  while the operands with their spaces take fewer than 512 bytes (\<open>join_args_fits\<close>).
  But the code adds the return value of \<^verbatim>\<open>snprintf\<close>, the length of the whole text,
  also when the text was cut: after one operand of 600 bytes \<^verbatim>\<open>pos\<close> is 601 and \<^verbatim>\<open>len\<close> has wrapped
  around to \<open>2^64 - 89\<close>, and the next operand is stored from index 601 on, outside the
  buffer.
\<close>

theorem join_args_out_of_bounds:
  "map_sum id (\<lambda>(buf, pos, len). (unat pos, unat len))
     (append_token (replicate 512 (CHR 0x00), 0, 512) (replicate 600 (CHR ''a'')))
     = Inr (601, 18446744073709551527)
   \<and> join_args (replicate 512 (CHR 0x00), 0, 512) [replicate 600 (CHR ''a''), ''b''] = Inl (601, 3)
   \<and> main strtobytes_spec [replicate 600 (CHR ''a''), ''b''] [] (world_with []) = Out_of_bounds 601 3"
proof -
  have r: "replicate 600 (CHR ''a'') = CHR ''a'' # replicate 599 (CHR ''a'')"
    using replicate_Suc [of 599 "CHR ''a''"] by simp
  have n: "\<not> is_option (replicate 600 (CHR ''a''))" "\<not> is_option ''b''"
    "replicate 600 (CHR ''a'') \<noteq> ''--''"
    by (simp_all add: is_option_def r)
  have g: "getopt_all False ''?f:p:r:st:v'' [replicate 600 (CHR ''a''), ''b'']
             = ([], [replicate 600 (CHR ''a''), ''b''])"
    by (simp only: getopt_all.simps n if_False) simp
  have a: "map_sum id (\<lambda>(buf, pos, len). (unat pos, unat len))
             (append_token (replicate 512 (CHR 0x00), 0, 512) (replicate 600 (CHR ''a'')))
           = Inr (601, 18446744073709551527)"
    by (simp add: append_token_def Let_def)
  have j: "join_args (replicate 512 (CHR 0x00), 0, 512) [replicate 600 (CHR ''a''), ''b''] = Inl (601, 3)"
    by (simp add: append_token_def Let_def)
  have e: "environ (os (world_with [])) ''POSIXLY_CORRECT'' = None"
    by (simp add: world_with_def plain_os_def)
  have m: "main strtobytes_spec [replicate 600 (CHR ''a''), ''b''] [] (world_with []) = Out_of_bounds 601 3"
    by (simp add: main_def e g j del: join_args.simps getopt_all.simps)
  from a j m show ?thesis by (intro conjI)
qed

section \<open>The active file in a rotation (C4, C5)\<close>

lemma aged_os [simp]: "os (aged file num w) = os w"
  by (simp add: aged_def)

lemma logrotate_rotates:
  assumes "rotates file sz w" and "0 < num" and "files w file = Some st"
  shows "logrotate file num sz w = (0, rotate_active file (file @ ''.1'') st (aged file num w))"
proof -
  from assms have s: "sys_stat file w = (Some st, issue (Stat file) w)"
    and c: "sz > 0" "S_ISREG (st_mode st)" "st_size st > sz"
    by (auto simp: rotates_def sys_stat_def)
  have n: "fst (age_plain file len num [] w') = file @ ''.1''" if "length file + 10 < len" for w' len
    using assms(2) that by (simp add: age_plain_fst gen_name_1 snprintf_def)
  show ?thesis
    using c assms(2) by (simp add: logrotate_def s Let_def case_prod_beta aged_def n)
qed

lemma mode_type: "S_ISREG m \<Longrightarrow> (S_IFREG OR m) AND S_IFMT = m AND S_IFMT"
  by (simp add: S_ISREG_def bit.conj_disj_distrib2 S_IFREG_def S_IFMT_def)

lemma mode_perms: "(S_IFREG OR m) AND ALLPERMS AND x = m AND ALLPERMS AND x"
proof -
  have "S_IFREG AND ALLPERMS = 0"
    by (simp add: S_IFREG_def ALLPERMS_def)
  then have "(S_IFREG AND ALLPERMS) AND x = 0" by simp
  then have "S_IFREG AND ALLPERMS AND x = 0" by (simp only: and.assoc)
  then show ?thesis by (simp add: bit.conj_disj_distrib2)
qed

lemmas call_defs =
  sys_stat_def sys_rename_def sys_access_def sys_system_def sys_remove_def sys_truncate_def
  sys_mknod_def sys_chown_def issue_def create_def rotate_active_def compress_step_def
  snprintf_def

lemmas world_defs =
  world_with_def plain_os_def block_buffered_def reg_file_def refusing_def S_ISREG_def
  S_IFMT_def S_IFREG_def S_IFDIR_def ALLPERMS_def S_ISUID_def S_ISGID_def S_IXGRP_def
  chown_mode_def st_size_def rotates_def

lemmas ladder_simps = Let_def aged_def age_gz.simps age_plain.simps dec_def digits.simps digit_char_def

lemma sys_mknod_files:
  "files w p = None \<Longrightarrow> \<not> refuse (os w) (Mknod p m) \<Longrightarrow>
   files (snd (sys_mknod p m w)) =
     (files w)(p \<mapsto> \<lparr>st_mode = (m AND S_IFMT) OR (m AND ALLPERMS AND NOT (umask (os w))),
                       st_uid = euid (os w), st_gid = egid (os w), data = []\<rparr>)"
  by (simp add: sys_mknod_def)

lemma create_files:
  assumes "files w p = None" and "\<not> refuse (os w) (Mknod p (S_IFREG OR m))"
    and "\<not> refuse (os w) (Chown p u g)"
  shows "files (snd (create p m u g w)) =
     (files w)(p \<mapsto> \<lparr>st_mode = chown_mode (((S_IFREG OR m) AND S_IFMT)
                                   OR ((S_IFREG OR m) AND ALLPERMS AND NOT (umask (os w)))),
                       st_uid = u, st_gid = g, data = []\<rparr>)"
  using assms by (simp add: create_def sys_mknod_def sys_chown_def)

lemma create_frame: "q \<noteq> p \<Longrightarrow> files (snd (create p m u g w)) q = files w q"
  by (simp add: create_def sys_mknod_def sys_chown_def split: option.splits)

lemma recreated_file:
  assumes "rotates file sz w" and "0 < num" and "files w file = Some st"
    and "fst (sys_rename file (file @ ''.1'') (aged file num w)) = 0"
    and "\<not> refuse (os w) (Mknod file (S_IFREG OR st_mode st))"
    and "\<not> refuse (os w) (Chown file (st_uid st) (st_gid st))"
  shows "files (snd (logrotate file num sz w)) file =
            Some \<lparr>st_mode = chown_mode ((st_mode st AND S_IFMT)
                                OR (st_mode st AND ALLPERMS AND NOT (umask (os w)))),
                  st_uid = st_uid st, st_gid = st_gid st, data = []\<rparr>"
    and "\<forall>p. p \<noteq> file \<longrightarrow>
           files (snd (logrotate file num sz w)) p
             = files (snd (sys_rename file (file @ ''.1'') (aged file num w))) p"
proof -
  let ?w1 = "snd (sys_rename file (file @ ''.1'') (aged file num w))"
  from assms(1,3) have reg: "S_ISREG (st_mode st)"
    by (simp add: rotates_def)
  have lr: "snd (logrotate file num sz w) = snd (create file (st_mode st) (st_uid st) (st_gid st) ?w1)"
    using assms(4) by (simp add: logrotate_rotates [OF assms(1-3)] rotate_active_def case_prod_beta)
  from assms(4) have gone: "files ?w1 file = None"
    by (auto simp: sys_rename_fst sys_rename_files split: option.splits if_splits)
  show "files (snd (logrotate file num sz w)) file =
            Some \<lparr>st_mode = chown_mode ((st_mode st AND S_IFMT)
                                OR (st_mode st AND ALLPERMS AND NOT (umask (os w)))),
                  st_uid = st_uid st, st_gid = st_gid st, data = []\<rparr>"
    using assms(5,6) by (simp add: lr create_files [OF gone] mode_type [OF reg] mode_perms)
  show "\<forall>p. p \<noteq> file \<longrightarrow> files (snd (logrotate file num sz w)) p = files ?w1 p"
    by (simp add: lr create_frame)
qed

text \<open>
  C4. The claim is that the file recreated after a successful rename has the mode
  bits, owner and group of the file that \<^verbatim>\<open>stat\<close> saw. \<^verbatim>\<open>create\<close> passes
  \<^verbatim>\<open>st.st_mode\<close> to \<^verbatim>\<open>mknod\<close> and the owner and group to \<^verbatim>\<open>chown\<close>, and changes
  no other path (\<open>create_frame\<close>); with neither call refused the owner and group are
  those of the old file (\<open>recreated_file\<close>). But the mode bits are not kept:
  \<^verbatim>\<open>mknod\<close> clears the bits of the umask and \<^verbatim>\<open>chown\<close> the set-ID bits, and the
  code does nothing about either. Under umask 022 an active file of mode 0666 comes
  back with mode 0644, and one of mode 04755 with mode 0755; in both rotations the
  rename of the active file succeeds.
\<close>

theorem recreated_file_loses_mode_bits:
  "fst (sys_rename ''/tmp/x'' ''/tmp/x.1''
          (aged ''/tmp/x'' 1 (world_with [(''/tmp/x'', (reg_file ''abc'')\<lparr>st_mode := 0x81B6\<rparr>)]))) = 0
   \<and> map_option st_mode
         (files (snd (logrotate ''/tmp/x'' 1 1
                        (world_with [(''/tmp/x'', (reg_file ''abc'')\<lparr>st_mode := 0x81B6\<rparr>)]))) ''/tmp/x'')
       = Some 0x81A4
   \<and> fst (sys_rename ''/tmp/x'' ''/tmp/x.1''
          (aged ''/tmp/x'' 1 (world_with [(''/tmp/x'', (reg_file ''abc'')\<lparr>st_mode := 0x89ED\<rparr>)]))) = 0
   \<and> map_option st_mode
         (files (snd (logrotate ''/tmp/x'' 1 1
                        (world_with [(''/tmp/x'', (reg_file ''abc'')\<lparr>st_mode := 0x89ED\<rparr>)]))) ''/tmp/x'')
       = Some 0x81ED"
  by (simp add: logrotate_def world_defs call_defs ladder_simps)

text \<open>
  C5. In a rotation with \<open>N \<ge> 1\<close> whose \<^verbatim>\<open>rename(file, nfile)\<close> fails,
  \<^verbatim>\<open>logrotate\<close> calls \<^verbatim>\<open>truncate(file, 0)\<close> and returns 0: the truncation is its
  last call (no \<^verbatim>\<open>mknod\<close> follows), the set of existing paths is the one before the
  rename, no other file is changed, and the active file has length 0 unless the
  system refuses the truncation as well.
\<close>

theorem failed_rename_truncates:
  assumes "rotates file sz w" and "0 < num"
    and "fst (sys_rename file (file @ ''.1'') (aged file num w)) \<noteq> 0"
  shows "fst (logrotate file num sz w) = 0
     \<and> trace (snd (logrotate file num sz w))
         = trace (aged file num w) @ [Rename file (file @ ''.1''), Truncate file 0]
     \<and> dom (files (snd (logrotate file num sz w))) = dom (files (aged file num w))
     \<and> (\<forall>p. p \<noteq> file \<longrightarrow> files (snd (logrotate file num sz w)) p = files (aged file num w) p)
     \<and> (\<not> refuse (os w) (Truncate file 0) \<longrightarrow>
           map_option data (files (snd (logrotate file num sz w)) file)
             = map_option (\<lambda>f. []) (files (aged file num w) file))"
proof -
  let ?w2 = "aged file num w"
  let ?w1 = "snd (sys_rename file (file @ ''.1'') ?w2)"
  from assms(1) obtain st where st: "files w file = Some st"
    by (auto simp: rotates_def split: option.splits)
  have lr: "logrotate file num sz w = (0, snd (sys_truncate file 0 ?w1))"
    using assms(3) by (simp add: logrotate_rotates [OF assms(1,2) st] rotate_active_def case_prod_beta)
  from assms(3) have same: "files ?w1 = files ?w2"
    by (auto simp: sys_rename_fst sys_rename_files split: option.splits if_splits)
  have "fst (logrotate file num sz w) = 0" by (simp add: lr)
  moreover have "trace (snd (logrotate file num sz w))
         = trace ?w2 @ [Rename file (file @ ''.1''), Truncate file 0]"
    by (simp add: lr)
  moreover have "dom (files (snd (logrotate file num sz w))) = dom (files ?w2)"
    by (auto simp: lr sys_truncate_files same split: option.splits if_splits)
  moreover have "files (snd (logrotate file num sz w)) p = files ?w2 p" if "p \<noteq> file" for p
    using that by (simp add: lr sys_truncate_files same split: option.splits)
  moreover have "map_option data (files (snd (logrotate file num sz w)) file)
             = map_option (\<lambda>f. []) (files ?w2 file)" if "\<not> refuse (os w) (Truncate file 0)"
    using that by (simp add: lr sys_truncate_files same split: option.splits)
  ultimately show ?thesis by blast
qed

theorem failed_rename_truncates_witness:
  "rotates ''/tmp/x'' 1 (refusing (Rename ''/tmp/x'' ''/tmp/x.1'') (world_with [(''/tmp/x'', reg_file ''abc'')]))
   \<and> fst (sys_rename ''/tmp/x'' (''/tmp/x'' @ ''.1'')
            (aged ''/tmp/x'' 1 (refusing (Rename ''/tmp/x'' ''/tmp/x.1'') (world_with [(''/tmp/x'', reg_file ''abc'')]))))
        \<noteq> 0
   \<and> \<not> refuse (os (refusing (Rename ''/tmp/x'' ''/tmp/x.1'') (world_with [(''/tmp/x'', reg_file ''abc'')])))
          (Truncate ''/tmp/x'' 0)
   \<and> files (snd (logrotate ''/tmp/x'' 1 1
                   (refusing (Rename ''/tmp/x'' ''/tmp/x.1'') (world_with [(''/tmp/x'', reg_file ''abc'')]))))
        ''/tmp/x'' = Some (reg_file [])
   \<and> files (snd (logrotate ''/tmp/x'' 1 1
                   (refusing (Rename ''/tmp/x'' ''/tmp/x.1'') (world_with [(''/tmp/x'', reg_file ''abc'')]))))
        ''/tmp/x.1'' = None"
  using failed_rename_truncates [of "''/tmp/x''" 1
          "refusing (Rename ''/tmp/x'' ''/tmp/x.1'') (world_with [(''/tmp/x'', reg_file ''abc'')])" 1]
  by (simp add: logrotate_def world_defs call_defs ladder_simps)

section \<open>The compression step (C6)\<close>

lemma compress_step_removes:
  "\<not> refuse (os w) (Remove nfile) \<Longrightarrow> files (compress_step nfile w) nfile = None"
  by (simp add: compress_step_files Let_def)

text \<open>
  C6. The claim is that \<^verbatim>\<open><path>.2\<close> stays on disk, uncompressed, when the
  compressor is unavailable or fails. The code calls \<^verbatim>\<open>remove(nfile)\<close> after
  \<^verbatim>\<open>system(cmd)\<close> whatever the command did (\<open>compress_step_removes\<close>): on a system
  without \<^verbatim>\<open>gzip\<close> the generation that was just renamed to \<^verbatim>\<open>/tmp/x.2\<close> is
  deleted, and neither \<^verbatim>\<open>/tmp/x.2\<close> nor \<^verbatim>\<open>/tmp/x.2.gz\<close> exists after the
  rotation. \<^verbatim>\<open>logrotate\<close> returns 0.
\<close>

theorem unavailable_compressor_loses_generation:
  "shell (os (world_with [(''/tmp/x'', reg_file ''abc''), (''/tmp/x.1'', reg_file ''old'')]))
     = (\<lambda>cmd fs. fs)
   \<and> fst (logrotate ''/tmp/x'' 2 1 (world_with [(''/tmp/x'', reg_file ''abc''), (''/tmp/x.1'', reg_file ''old'')])) = 0
   \<and> files (snd (logrotate ''/tmp/x'' 2 1
                   (world_with [(''/tmp/x'', reg_file ''abc''), (''/tmp/x.1'', reg_file ''old'')])))
        ''/tmp/x.2'' = None
   \<and> files (snd (logrotate ''/tmp/x'' 2 1
                   (world_with [(''/tmp/x'', reg_file ''abc''), (''/tmp/x.1'', reg_file ''old'')])))
        ''/tmp/x.2.gz'' = None
   \<and> trace (snd (logrotate ''/tmp/x'' 2 1
                   (world_with [(''/tmp/x'', reg_file ''abc''), (''/tmp/x.1'', reg_file ''old'')])))
       = [Stat ''/tmp/x'', Rename ''/tmp/x.1'' ''/tmp/x.2'', Access ''/tmp/x.2'',
          System ''gzip /tmp/x.2'', Remove ''/tmp/x.2'', Rename ''/tmp/x.0'' ''/tmp/x.1'',
          Rename ''/tmp/x'' ''/tmp/x.1'', Mknod ''/tmp/x'' 0x81A4, Chown ''/tmp/x'' 1000 1000]"
  by (simp add: logrotate_def world_defs call_defs ladder_simps)


section \<open>Writing without rotation (C3)\<close>

lemma fd_write_os [simp]: "os (fd_write p s w) = os w"
  and fd_write_trace [simp]: "trace (fd_write p s w) = trace w"
  by (simp_all add: fd_write_def split: option.splits)

lemma fd_write_files:
  "files (fd_write p s w) = (case files w p of None \<Rightarrow> files w | Some f \<Rightarrow> (files w)(p \<mapsto> f\<lparr>data := data f @ s\<rparr>))"
  by (simp add: fd_write_def split: option.splits)

lemma stdio_write_os [simp]: "os (snd (stdio_write p pend s w)) = os w"
  and stdio_write_trace [simp]: "trace (snd (stdio_write p pend s w)) = trace w"
  and stdio_write_fst: "fst (stdio_write p pend s w) = drop (stdio_flush (os w) (pend @ s)) (pend @ s)"
  by (simp_all add: stdio_write_def Let_def)

lemma stdio_write_files:
  "files w p = Some f \<Longrightarrow>
   files (snd (stdio_write p pend s w)) =
     (files w)(p \<mapsto> f\<lparr>data := data f @ take (stdio_flush (os w) (pend @ s)) (pend @ s)\<rparr>)"
  by (simp add: stdio_write_def Let_def fd_write_files)

lemma sys_fsync_os [simp]: "os (sys_fsync p w) = os w"
  and sys_fsync_files [simp]: "files (sys_fsync p w) = files w"
  and sys_fsync_trace [simp]: "trace (sys_fsync p w) = trace w @ [Fsync p]"
  by (simp_all add: sys_fsync_def)

lemma sys_fstat_os [simp]: "os (snd (sys_fstat p w)) = os w"
  and sys_fstat_files [simp]: "files (snd (sys_fstat p w)) = files w"
  and sys_fstat_trace [simp]: "trace (snd (sys_fstat p w)) = trace w @ [Fstat p]"
  and sys_fstat_fst: "fst (sys_fstat p w) = (if refuse (os w) (Fstat p) then None else files w p)"
  by (simp_all add: sys_fstat_def)

lemma sys_fclose_os [simp]: "os (snd (sys_fclose p pend w)) = os w"
  and sys_fclose_trace [simp]: "trace (snd (sys_fclose p pend w)) = trace w @ [Fclose p]"
  and sys_fclose_fst: "fst (sys_fclose p pend w) = (if refuse (os w) (Fclose p) then -1 else 0)"
  by (simp_all add: sys_fclose_def)

lemma sys_fclose_files:
  "\<not> refuse (os w) (Fclose p) \<Longrightarrow> files w p = Some f \<Longrightarrow>
   files (snd (sys_fclose p pend w)) = (files w)(p \<mapsto> f\<lparr>data := data f @ pend\<rparr>)"
  by (simp add: sys_fclose_def fd_write_files)

lemma sys_fopen_os [simp]: "os (snd (sys_fopen p w)) = os w"
  and sys_fopen_trace [simp]: "trace (snd (sys_fopen p w)) = trace w @ [Fopen p]"
  and sys_fopen_fst: "fst (sys_fopen p w) = (\<not> refuse (os w) (Fopen p))"
  by (simp_all add: sys_fopen_def split: option.splits)

lemma sys_fopen_files:
  "\<not> refuse (os w) (Fopen p) \<Longrightarrow>
   files (snd (sys_fopen p w)) =
     (case files w p of
        Some f \<Rightarrow> files w
      | None \<Rightarrow> (files w)(p \<mapsto> \<lparr>st_mode = S_IFREG OR (0x1B6 AND NOT (umask (os w))),
                                 st_uid = euid (os w), st_gid = egid (os w), data = []\<rparr>))"
  by (simp add: sys_fopen_def split: option.splits)

lemma checksz_quiet:
  assumes "sz \<le> 0 \<or> (case files w p of None \<Rightarrow> True | Some f \<Rightarrow> st_size f \<le> sz)"
  shows "fst (checksz p pend sz w) = 0"
    and "files (snd (checksz p pend sz w)) = files w"
    and "os (snd (checksz p pend sz w)) = os w"
    and "\<exists>t. trace (snd (checksz p pend sz w)) = trace w @ t \<and> set t \<subseteq> {Fstat p}"
  using assms by (auto simp: checksz_def sys_fstat_def split: option.splits)

lemma checksz_fires:
  assumes "0 < sz" and "\<not> refuse (os w) (Fstat p)" and "files w p = Some f" and "sz < st_size f"
  shows "checksz p pend sz w = (1, snd (sys_fclose p pend (issue (Fstat p) w)))"
  using assms by (simp add: checksz_def sys_fstat_def)


lemma fgets_Some:
  assumes "fgets len inp = Some (chunk, rest)" and "2 \<le> len"
  shows "chunk \<noteq> []" and "length rest < length inp" and "inp = chunk @ rest"
proof -
  from assms have inp: "inp \<noteq> []"
    by (auto simp: fgets_def split: if_splits)
  define line where "line = takeWhile (\<lambda>c. c \<noteq> CHR 0x0A) inp"
  define k where "k = (if length line < length inp then length line + 1 else length line)"
  define m where "m = min k (len - 1)"
  from assms inp have cr: "chunk = take m inp" "rest = drop m inp"
    by (auto simp: fgets_def Let_def m_def k_def line_def split: if_splits)
  have "0 < k"
    using inp by (cases inp) (auto simp: k_def line_def)
  with assms(2) have m: "0 < m" by (simp add: m_def)
  from m inp show "chunk \<noteq> []" by (simp add: cr)
  from m inp show "length rest < length inp" by (simp add: cr)
  show "inp = chunk @ rest" by (simp add: cr)
qed

lemma fgets_None: "fgets len inp = None \<Longrightarrow> 2 \<le> len \<Longrightarrow> inp = []"
  by (auto simp: fgets_def Let_def split: if_splits)

lemma flogit_while_quiet:
  assumes "2 \<le> len" and "\<not> refuse (os w) (Fclose logfile)" and "files w logfile = Some f"
    and "sz \<le> 0 \<or> (\<forall>s\<in>set (sizes_after (stdio_flush (os w)) (length (data f)) pend (chunks len inp)). int s \<le> sz)"
  shows "\<exists>w'. flogit_while logfile num sz len pend inp w = Some (0, w')
        \<and> files w' = (files w)(logfile \<mapsto> f\<lparr>data := data f @ pend @ concat (chunks len inp)\<rparr>)
        \<and> os w' = os w
        \<and> (\<exists>t. trace w' = trace w @ t \<and> set t \<subseteq> {Fsync logfile, Fstat logfile, Fclose logfile})"
  using assms
proof (induction inp arbitrary: pend w f rule: length_induct)
  case (1 inp)
  note len = \<open>2 \<le> len\<close>
  show ?case
  proof (cases "fgets len inp")
    case None
    then have c: "chunks len inp = []" by (subst chunks.simps) simp
    show ?thesis
      using "1.prems"(2,3)
      by (subst flogit_while.simps)
         (simp add: None c sys_fclose_def fd_write_files)
  next
    case (Some cr)
    obtain chunk rest where cr: "cr = (chunk, rest)" by (cases cr)
    with Some have g: "fgets len inp = Some (chunk, rest)" by simp
    note ne = fgets_Some(1) [OF g len] and shorter = fgets_Some(2) [OF g len]
    from ne g have c: "chunks len inp = cstr chunk # chunks len rest"
      by (subst chunks.simps) simp
    define b where "b = pend @ cstr chunk"
    define k where "k = stdio_flush (os w) b"
    define f1 where "f1 = f\<lparr>data := data f @ take k b\<rparr>"
    define w1 where "w1 = snd (stdio_write logfile pend (cstr chunk) w)"
    define w2 where "w2 = sys_fsync logfile w1"
    define w3 where "w3 = snd (checksz logfile (drop k b) sz w2)"
    have sw: "stdio_write logfile pend (cstr chunk) w = (drop k b, w1)"
      by (simp add: w1_def stdio_write_def Let_def b_def k_def)
    have fw1: "files w1 = (files w)(logfile \<mapsto> f1)"
      using "1.prems"(3) by (simp add: w1_def stdio_write_files f1_def b_def k_def)
    have ow1: "os w1 = os w" "trace w1 = trace w"
      by (simp_all add: w1_def)
    have fw2: "files w2 logfile = Some f1" "os w2 = os w" "files w2 = (files w)(logfile \<mapsto> f1)"
      by (simp_all add: w2_def fw1 ow1)
    define n1 where "n1 = length (data f) + length (take k b)"
    have sa: "sizes_after (stdio_flush (os w)) (length (data f)) pend (chunks len inp)
                = n1 # sizes_after (stdio_flush (os w)) n1 (drop k b) (chunks len rest)"
      by (simp only: c sizes_after.simps Let_def b_def k_def n1_def)
    have l1: "length (data f1) = n1"
      by (simp add: f1_def n1_def)
    from "1.prems"(4) have q: "sz \<le> 0 \<or> st_size f1 \<le> sz"
      unfolding sa by (auto simp: st_size_def l1)
    then have q': "sz \<le> 0 \<or> (case files w2 logfile of None \<Rightarrow> True | Some f \<Rightarrow> st_size f \<le> sz)"
      by (simp add: fw2)
    note cq = checksz_quiet [OF q', of "drop k b"]
    have r: "checksz logfile (drop k b) sz w2 = (0, w3)"
      using cq(1) by (simp add: w3_def prod_eq_iff)
    have fw3: "files w3 logfile = Some f1" "os w3 = os w" "files w3 = (files w)(logfile \<mapsto> f1)"
      using cq(2,3) by (simp_all add: w3_def fw2)
    from cq(4) obtain t3 where t3: "trace w3 = trace w @ Fsync logfile # t3" "set t3 \<subseteq> {Fstat logfile}"
      by (auto simp: w3_def w2_def ow1)
    from "1.prems"(4) have q3:
      "sz \<le> 0 \<or> (\<forall>s\<in>set (sizes_after (stdio_flush (os w3)) (length (data f1)) (drop k b) (chunks len rest)). int s \<le> sz)"
      unfolding sa by (auto simp: l1 fw3)
    from "1.prems"(2) have nc: "\<not> refuse (os w3) (Fclose logfile)" by (simp add: fw3)
    from "1.IH" [rule_format, OF shorter len nc fw3(1) q3]
    obtain w' where w': "flogit_while logfile num sz len (drop k b) rest w3 = Some (0, w')"
      "files w' = (files w3)(logfile \<mapsto> f1\<lparr>data := data f1 @ drop k b @ concat (chunks len rest)\<rparr>)"
      "os w' = os w3"
      and "\<exists>t. trace w' = trace w3 @ t \<and> set t \<subseteq> {Fsync logfile, Fstat logfile, Fclose logfile}"
      by blast
    then obtain t where t: "trace w' = trace w3 @ t" "set t \<subseteq> {Fsync logfile, Fstat logfile, Fclose logfile}"
      by blast
    have eq: "flogit_while logfile num sz len pend inp w = Some (0, w')"
      using ne by (subst flogit_while.simps) (simp add: g sw w2_def [symmetric] r w')
    have d: "data f1 @ drop k b @ concat (chunks len rest) = data f @ pend @ concat (chunks len inp)"
    proof -
      have "take k b @ drop k b @ concat (chunks len rest) = b @ concat (chunks len rest)"
        by (simp only: append_assoc [symmetric] append_take_drop_id)
      then show ?thesis by (simp add: f1_def c b_def)
    qed
    have "files w' = (files w)(logfile \<mapsto> f\<lparr>data := data f @ pend @ concat (chunks len inp)\<rparr>)"
      by (simp add: w'(2) fw3 d [symmetric]) (simp add: f1_def)
    moreover have "os w' = os w" by (simp add: w'(3) fw3)
    moreover have "\<exists>t. trace w' = trace w @ t \<and> set t \<subseteq> {Fsync logfile, Fstat logfile, Fclose logfile}"
      using t t3 by (intro exI [of _ "Fsync logfile # t3 @ t"]) auto
    ultimately show ?thesis using eq by blast
  qed
qed


lemma sys_fopen_opened:
  assumes "\<not> refuse (os w) (Fopen p)"
  obtains f0 where "sys_fopen p w = (True, snd (sys_fopen p w))"
    and "files (snd (sys_fopen p w)) = (files w)(p \<mapsto> f0)"
    and "data f0 = initial_data w p"
proof (cases "files w p")
  case None
  with assms that show ?thesis
    by (simp add: sys_fopen_def initial_data_def)
next
  case (Some f)
  then have "files w = (files w)(p \<mapsto> f)" by (simp add: fun_upd_idem)
  with Some assms that [of f] show ?thesis
    by (simp add: sys_fopen_def initial_data_def)
qed

lemma flogit_quiet:
  assumes "2 \<le> len" and "\<not> refuse (os w) (Fopen logfile)" and "\<not> refuse (os w) (Fclose logfile)"
    and "sz \<le> 0 \<or> (\<forall>s\<in>set (sizes_after (stdio_flush (os w)) (length (initial_data w logfile)) []
                                 (lines_written buf len inp)). int s \<le> sz)"
  shows "\<exists>w'. flogit logfile num sz buf len inp w = Some (0, w')
     \<and> map_option data (files w' logfile) = Some (initial_data w logfile @ concat (lines_written buf len inp))
     \<and> (\<forall>p. p \<noteq> logfile \<longrightarrow> files w' p = files w p)
     \<and> os w' = os w
     \<and> trace w' = trace w @ new_calls w w'
     \<and> set (new_calls w w') \<subseteq> {Fopen logfile, Fsync logfile, Fstat logfile, Fclose logfile}"
proof -
  define w0 where "w0 = snd (sys_fopen logfile w)"
  from sys_fopen_opened [OF assms(2)] obtain f0 where
    op: "sys_fopen logfile w = (True, w0)" and fw0: "files w0 = (files w)(logfile \<mapsto> f0)"
    and d0: "data f0 = initial_data w logfile"
    unfolding w0_def by blast
  have ow0: "os w0 = os w" and tw0: "trace w0 = trace w @ [Fopen logfile]"
    by (simp_all add: w0_def)
  show ?thesis
  proof (cases "buf = []")
    case True
    then have lw: "lines_written buf len inp = chunks len inp"
      by (simp add: lines_written_def)
    from assms(3) have nc: "\<not> refuse (os w0) (Fclose logfile)" by (simp add: ow0)
    have f0: "files w0 logfile = Some f0" by (simp add: fw0)
    from assms(4) have q: "sz \<le> 0 \<or> (\<forall>s\<in>set (sizes_after (stdio_flush (os w0)) (length (data f0)) []
                                 (chunks len inp)). int s \<le> sz)"
      by (simp add: lw d0 ow0)
    from flogit_while_quiet [OF assms(1) nc f0 q, of num]
    obtain w' t where w': "flogit_while logfile num sz len [] inp w0 = Some (0, w')"
      "files w' = (files w0)(logfile \<mapsto> f0\<lparr>data := data f0 @ [] @ concat (chunks len inp)\<rparr>)"
      "os w' = os w0" "trace w' = trace w0 @ t"
      "set t \<subseteq> {Fsync logfile, Fstat logfile, Fclose logfile}"
      by blast
    have "flogit logfile num sz buf len inp w = Some (0, w')"
      using True by (subst flogit.simps) (simp add: op w')
    moreover have "map_option data (files w' logfile) = Some (initial_data w logfile @ concat (lines_written buf len inp))"
      by (simp add: w'(2) lw d0)
    moreover have "\<forall>p. p \<noteq> logfile \<longrightarrow> files w' p = files w p"
      by (simp add: w'(2) fw0)
    moreover have "os w' = os w" by (simp add: w'(3) ow0)
    moreover have "trace w' = trace w @ new_calls w w'"
      by (simp add: new_calls_def w'(4) tw0)
    moreover have "set (new_calls w w') \<subseteq> {Fopen logfile, Fsync logfile, Fstat logfile, Fclose logfile}"
      using w'(5) by (auto simp: new_calls_def w'(4) tw0)
    ultimately show ?thesis by blast
  next
    case False
    then have lw: "lines_written buf len inp = [buf @ [CHR 0x0A]]"
      by (simp add: lines_written_def)
    define b where "b = buf @ [CHR 0x0A]"
    define k where "k = stdio_flush (os w) b"
    define f1 where "f1 = f0\<lparr>data := data f0 @ take k b\<rparr>"
    define w1 where "w1 = snd (stdio_write logfile [] b w0)"
    define w2 where "w2 = sys_fsync logfile w1"
    define w3 where "w3 = snd (checksz logfile (drop k b) sz w2)"
    have sw: "stdio_write logfile [] b w0 = (drop k b, w1)"
      by (simp add: w1_def stdio_write_def Let_def k_def ow0)
    have fw1: "files w1 = (files w)(logfile \<mapsto> f1)"
      by (simp add: w1_def stdio_write_files [of w0 logfile f0] fw0 f1_def k_def ow0)
    have ow1: "os w1 = os w" "trace w1 = trace w0"
      by (simp_all add: w1_def ow0)
    have fw2: "files w2 logfile = Some f1" "os w2 = os w" "files w2 = (files w)(logfile \<mapsto> f1)"
      by (simp_all add: w2_def fw1 ow1)
    have l1: "length (data f1) = length (initial_data w logfile) + length (take k b)"
      by (simp add: f1_def d0)
    from assms(4) have "sz \<le> 0 \<or> st_size f1 \<le> sz"
      unfolding lw by (auto simp: Let_def st_size_def l1 b_def k_def)
    then have q': "sz \<le> 0 \<or> (case files w2 logfile of None \<Rightarrow> True | Some f \<Rightarrow> st_size f \<le> sz)"
      by (simp add: fw2)
    note cq = checksz_quiet [OF q', of "drop k b"]
    have r: "checksz logfile (drop k b) sz w2 = (0, w3)"
      using cq(1) by (simp add: w3_def prod_eq_iff)
    have fw3: "files w3 logfile = Some f1" "os w3 = os w" "files w3 = (files w)(logfile \<mapsto> f1)"
      using cq(2,3) by (simp_all add: w3_def fw2)
    from cq(4) obtain t3 where t3: "trace w3 = trace w @ Fopen logfile # Fsync logfile # t3" "set t3 \<subseteq> {Fstat logfile}"
      by (auto simp: w3_def w2_def ow1 tw0)
    define w' where "w' = snd (sys_fclose logfile (drop k b) w3)"
    from assms(3) have cl: "sys_fclose logfile (drop k b) w3 = (0, w')"
      by (simp add: w'_def sys_fclose_def fw3)
    have "flogit logfile num sz buf len inp w = Some (0, w')"
      using False by (subst flogit.simps) (simp add: op b_def [symmetric] sw w2_def [symmetric] r cl)
    moreover have fw': "files w' = (files w)(logfile \<mapsto> f1\<lparr>data := data f1 @ drop k b\<rparr>)"
      using assms(3) by (simp add: w'_def sys_fclose_files [of w3 logfile f1] fw3)
    have "map_option data (files w' logfile) = Some (initial_data w logfile @ concat (lines_written buf len inp))"
      by (simp add: fw' lw f1_def d0 b_def [symmetric])
    moreover have "\<forall>p. p \<noteq> logfile \<longrightarrow> files w' p = files w p"
      by (simp add: fw')
    moreover have "os w' = os w" by (simp add: w'_def fw3)
    moreover have "trace w' = trace w @ new_calls w w'"
      by (simp add: new_calls_def w'_def t3(1))
    moreover have "set (new_calls w w') \<subseteq> {Fopen logfile, Fsync logfile, Fstat logfile, Fclose logfile}"
      using t3(2) by (auto simp: new_calls_def w'_def t3(1))
    ultimately show ?thesis by blast
  qed
qed

text \<open>
  C3. When the size of the active file after each write of a call of \<^verbatim>\<open>flogit\<close>
  stays within the threshold \<open>sz > 0\<close>, the call issues only \<^verbatim>\<open>fopen\<close>,
  \<^verbatim>\<open>fsync\<close>, \<^verbatim>\<open>fstat\<close> and \<^verbatim>\<open>fclose\<close> on the log file (\<^verbatim>\<open>logrotate\<close> is not
  called: no \<^verbatim>\<open>stat\<close>, \<^verbatim>\<open>rename\<close> or \<^verbatim>\<open>truncate\<close>), returns 0, changes no other
  file, and leaves in the active file what it held followed by all writes in order.
  This holds for every buffering of stdio, with \<^verbatim>\<open>fopen\<close> and \<^verbatim>\<open>fclose\<close> not
  refused and a buffer of at least 2 bytes (\<^verbatim>\<open>main\<close> passes 512).
\<close>

theorem writes_within_threshold:
  assumes "0 < sz" and "2 \<le> len"
    and "\<not> refuse (os w) (Fopen logfile)" and "\<not> refuse (os w) (Fclose logfile)"
    and "\<forall>s\<in>set (sizes_after (stdio_flush (os w)) (length (initial_data w logfile)) []
                      (lines_written buf len inp)). int s \<le> sz"
  shows "\<exists>w'. flogit logfile num sz buf len inp w = Some (0, w')
     \<and> map_option data (files w' logfile)
         = Some (initial_data w logfile @ concat (lines_written buf len inp))
     \<and> (\<forall>p. p \<noteq> logfile \<longrightarrow> files w' p = files w p)
     \<and> set (new_calls w w') \<subseteq> {Fopen logfile, Fsync logfile, Fstat logfile, Fclose logfile}"
  using flogit_quiet [OF assms(2-4), of sz buf inp num] assms(5) by blast

lemma chunks_two_lines: "chunks 512 ''cd\<newline>ef\<newline>'' = [''cd\<newline>'', ''ef\<newline>'']"
  by (simp add: chunks.simps fgets_def cstr_def)

theorem writes_within_threshold_witness:
  "sizes_after (stdio_flush (os (world_with [(''/tmp/x'', reg_file ''ab\<newline>'')])))
       (length (initial_data (world_with [(''/tmp/x'', reg_file ''ab\<newline>'')]) ''/tmp/x'')) []
       (lines_written [] 512 ''cd\<newline>ef\<newline>'') = [3, 3]
   \<and> (\<exists>w'. flogit ''/tmp/x'' 5 100 [] 512 ''cd\<newline>ef\<newline>'' (world_with [(''/tmp/x'', reg_file ''ab\<newline>'')])
              = Some (0, w')
           \<and> map_option data (files w' ''/tmp/x'') = Some ''ab\<newline>cd\<newline>ef\<newline>'')"
  using writes_within_threshold [of 100 512 "world_with [(''/tmp/x'', reg_file ''ab\<newline>'')]"
          "''/tmp/x''" "[]" "''cd\<newline>ef\<newline>''" 5]
  by (simp add: world_defs initial_data_def lines_written_def chunks_two_lines Let_def) blast

section \<open>Rotation in the streaming path (C2)\<close>

lemma snprintf_longer:
  "length file + 2 \<le> len \<Longrightarrow> length file < length (snprintf old len (file @ CHR ''.'' # x))"
  by (simp add: snprintf_def)

lemma snprintf_neq:
  "length file + 2 \<le> len \<Longrightarrow> snprintf old len (file @ CHR ''.'' # x) \<noteq> file"
  using snprintf_longer [of "file" len old x] by auto

lemma sys_rename_other:
  "a \<noteq> p \<Longrightarrow> b \<noteq> p \<Longrightarrow> files (snd (sys_rename a b w)) p = files w p"
  by (simp add: sys_rename_files split: option.splits)

lemma rotations_issue [simp]:
  "rotations file (issue c w) = rotations file w + (if moves file c then 1 else 0)"
  by (simp add: rotations_def)

lemma rotations_trace: "trace w' = trace w @ t \<Longrightarrow> rotations file w' = rotations file w + length (filter (moves file) t)"
  by (simp add: rotations_def)

lemma age_gz_keeps:
  "length file + 2 \<le> len \<Longrightarrow>
   files (age_gz file len cnt w) file = files w file
   \<and> rotations file (age_gz file len cnt w) = rotations file w"
proof (induction "file" len cnt w rule: age_gz.induct)
  case (1 fl len cnt w)
  show ?case
  proof (cases "cnt > 2")
    case True
    with "1.IH" "1.prems" show ?thesis
      by (subst (1 2) age_gz.simps)
         (simp add: Let_def sys_rename_other snprintf_neq rotations_trace [where t = "[Rename a b]" for a b])
  next
    case False
    then show ?thesis by (subst (1 2) age_gz.simps) simp
  qed
qed

lemma compress_step_keeps:
  assumes "\<forall>cmd fs. shell (os w) cmd fs p = fs p" and "nfile \<noteq> p"
  shows "files (compress_step nfile w) p = files w p"
  using assms by (simp add: compress_step_files Let_def)

lemma age_plain_keeps:
  assumes "length file + 2 \<le> len" and "\<forall>cmd fs. shell (os w) cmd fs file = fs file"
  shows "files (snd (age_plain file len cnt nfile0 w)) file = files w file
   \<and> rotations file (snd (age_plain file len cnt nfile0 w)) = rotations file w"
  using assms
proof (induction "file" len cnt nfile0 w rule: age_plain.induct)
  case (1 fl len cnt nfile0 w)
  show ?case
  proof (cases "cnt > 0")
    case True
    define ofile where "ofile = snprintf [] len (fl @ ''.'' @ dec (cnt - 1))"
    define nfile where "nfile = snprintf nfile0 len (fl @ ''.'' @ dec cnt)"
    define w1 where "w1 = snd (sys_rename ofile nfile w)"
    define w2 where "w2 = (if cnt = 2 then
                    (case sys_access nfile w1 of
                       (r, wa) \<Rightarrow> if r = 0 then compress_step nfile wa else wa)
                  else w1)"
    have n: "ofile \<noteq> fl" "nfile \<noteq> fl"
      using "1.prems"(1) by (simp_all add: ofile_def nfile_def snprintf_neq)
    have f1: "files w1 fl = files w fl" "os w1 = os w" "rotations fl w1 = rotations fl w"
      using n by (simp_all add: w1_def sys_rename_other rotations_trace [where t = "[Rename a b]" for a b])
    have f2: "files w2 fl = files w fl \<and> os w2 = os w \<and> rotations fl w2 = rotations fl w"
      using f1 n "1.prems"(2)
      by (auto simp: w2_def case_prod_beta compress_step_keeps
            rotations_trace [where t = "[Access a]" for a]
            rotations_trace [where t = "[Access a, System c, Remove b]" for a b c])
    have step: "age_plain fl len cnt nfile0 w = age_plain fl len (cnt - 1) nfile w2"
      using True by (subst age_plain.simps) (simp only: if_True Let_def ofile_def nfile_def w1_def w2_def)
    from "1.prems"(2) f2 have sh: "\<forall>cmd fs. shell (os w2) cmd fs fl = fs fl" by simp
    from "1.IH" [OF True ofile_def nfile_def w1_def w2_def "1.prems"(1) sh] f2
    show ?thesis by (simp add: step)
  next
    case False
    then show ?thesis by (subst (1 2) age_plain.simps) simp
  qed
qed


lemma aged_keeps:
  assumes "\<forall>cmd fs. shell (os w) cmd fs file = fs file"
  shows "files (aged file num w) file = files w file"
    and "rotations file (aged file num w) = rotations file w"
proof -
  let ?len = "length file + 10 + 1"
  let ?w0 = "snd (sys_stat file w)"
  let ?w1 = "age_gz file ?len num ?w0"
  have l: "length file + 2 \<le> ?len" by simp
  have s0: "files ?w0 file = files w file" "rotations file ?w0 = rotations file w"
    by (simp_all add: rotations_trace [where t = "[Stat file]"])
  note g = age_gz_keeps [OF l, of num ?w0]
  from assms have sh: "\<forall>cmd fs. shell (os ?w1) cmd fs file = fs file" by simp
  note p = age_plain_keeps [OF l sh, of num "[]"]
  from s0 g p show "files (aged file num w) file = files w file"
    and "rotations file (aged file num w) = rotations file w"
    by (simp_all add: aged_def)
qed

lemma create_result:
  assumes "files w file = None"
  shows "initial_data (snd (create file m u g w)) file = []"
    and "rotations file (snd (create file m u g w)) = rotations file w"
proof -
  show "initial_data (snd (create file m u g w)) file = []"
  proof (cases "refuse (os w) (Mknod file (S_IFREG OR m))")
    case True
    with assms show ?thesis
      by (simp add: create_def sys_mknod_def initial_data_def)
  next
    case False
    with assms show ?thesis
      by (simp add: create_def sys_mknod_def sys_chown_def initial_data_def)
  qed
  have "\<exists>t. trace (snd (create file m u g w)) = trace w @ t \<and> filter (moves file) t = []"
    by (simp add: create_def case_prod_beta)
  then show "rotations file (snd (create file m u g w)) = rotations file w"
    by (auto simp: rotations_def)
qed


lemma logrotate_moves_active:
  assumes "rotates file sz w" and "0 < num" and "files w file = Some st"
    and "\<forall>cmd fs. shell (os w) cmd fs file = fs file"
    and "\<not> refuse (os w) (Rename file (file @ ''.1''))"
  shows "fst (logrotate file num sz w) = 0"
    and "files (snd (logrotate file num sz w)) (file @ ''.1'') = Some st"
    and "initial_data (snd (logrotate file num sz w)) file = []"
    and "rotations file (snd (logrotate file num sz w)) = rotations file w + 1"
    and "os (snd (logrotate file num sz w)) = os w"
proof -
  define w2 where "w2 = aged file num w"
  define w1 where "w1 = snd (sys_rename file (file @ ''.1'') w2)"
  note k = aged_keeps [OF assms(4), of num, folded w2_def]
  have o2: "os w2 = os w" by (simp add: w2_def)
  have "fst (sys_rename file (file @ ''.1'') w2) = 0"
    using assms(3,5) by (simp add: sys_rename_fst k(1) o2)
  then have r: "sys_rename file (file @ ''.1'') w2 = (0, w1)"
    by (simp add: w1_def prod_eq_iff)
  have f1: "files w1 = (files w2)(file := None, file @ ''.1'' \<mapsto> st)"
    using assms(3,5) by (simp add: w1_def sys_rename_files k(1) o2)
  then have gone: "files w1 file = None" by simp
  have o1: "os w1 = os w" by (simp add: w1_def o2)
  have "trace w1 = trace w2 @ [Rename file (file @ ''.1'')]" by (simp add: w1_def)
  from rotations_trace [OF this, of "file"] have r1: "rotations file w1 = rotations file w + 1"
    by (simp add: k(2))
  have lr: "logrotate file num sz w
      = (0, snd (create file (st_mode st) (st_uid st) (st_gid st) w1))"
    by (simp add: logrotate_rotates [OF assms(1-3)] rotate_active_def w2_def [symmetric] r)
  show "fst (logrotate file num sz w) = 0" by (simp add: lr)
  show "files (snd (logrotate file num sz w)) (file @ ''.1'') = Some st"
    by (simp add: lr create_frame f1)
  show "initial_data (snd (logrotate file num sz w)) file = []"
    by (simp add: lr create_result(1) [OF gone])
  show "rotations file (snd (logrotate file num sz w)) = rotations file w + 1"
    by (simp add: lr create_result(2) [OF gone] r1)
  show "os (snd (logrotate file num sz w)) = os w"
    by (simp add: lr o1)
qed


lemma flogit_while_rotates:
  assumes "fgets len inp = Some (chunk, rest)" and "2 \<le> len"
    and "files w logfile = Some f" and "S_ISREG (st_mode f)"
    and "0 < sz" and "0 < num"
    and "sz < int (length (data f) + length (take (stdio_flush (os w) (pend @ cstr chunk)) (pend @ cstr chunk)))"
    and "\<not> refuse (os w) (Fstat logfile)" and "\<not> refuse (os w) (Fclose logfile)"
    and "\<not> refuse (os w) (Stat logfile)" and "\<not> refuse (os w) (Rename logfile (logfile @ ''.1''))"
    and "\<forall>cmd fs. shell (os w) cmd fs logfile = fs logfile"
  shows "\<exists>w'. flogit_while logfile num sz len pend inp w = flogit logfile num sz [] len rest w'
           \<and> files w' (logfile @ ''.1'') = Some (f\<lparr>data := data f @ pend @ cstr chunk\<rparr>)
           \<and> initial_data w' logfile = []
           \<and> rotations logfile w' = rotations logfile w + 1
           \<and> (\<not> refuse (os w) (Fopen logfile)
                \<and> (\<forall>s\<in>set (sizes_after (stdio_flush (os w)) 0 [] (chunks len rest)). int s \<le> sz)
               \<longrightarrow> (\<exists>w''. flogit_while logfile num sz len pend inp w = Some (0, w'')
                     \<and> map_option data (files w'' logfile) = Some (concat (chunks len rest))
                     \<and> files w'' (logfile @ ''.1'') = Some (f\<lparr>data := data f @ pend @ cstr chunk\<rparr>)
                     \<and> rotations logfile w'' = rotations logfile w + 1))"
proof -
  note ne = fgets_Some(1) [OF assms(1,2)]
  define b where "b = pend @ cstr chunk"
  define k where "k = stdio_flush (os w) b"
  define f1 where "f1 = f\<lparr>data := data f @ take k b\<rparr>"
  define f2 where "f2 = f\<lparr>data := data f @ b\<rparr>"
  define w1 where "w1 = snd (stdio_write logfile pend (cstr chunk) w)"
  define w2 where "w2 = sys_fsync logfile w1"
  define w3 where "w3 = snd (sys_fclose logfile (drop k b) (issue (Fstat logfile) w2))"
  define w' where "w' = snd (logrotate logfile num sz w3)"
  have sw: "stdio_write logfile pend (cstr chunk) w = (drop k b, w1)"
    by (simp add: w1_def stdio_write_def Let_def b_def k_def)
  have fw1: "files w1 = (files w)(logfile \<mapsto> f1)"
    using assms(3) by (simp add: w1_def stdio_write_files f1_def b_def k_def)
  have ow1: "os w1 = os w" "trace w1 = trace w"
    by (simp_all add: w1_def)
  have fw2: "files w2 logfile = Some f1" "os w2 = os w" "files w2 = (files w)(logfile \<mapsto> f1)"
    "trace w2 = trace w @ [Fsync logfile]"
    by (simp_all add: w2_def fw1 ow1)
  from assms(7) have big: "sz < st_size f1"
    by (simp add: st_size_def f1_def b_def k_def)
  have r: "checksz logfile (drop k b) sz w2 = (1, w3)"
    using checksz_fires [of sz w2 logfile f1 "drop k b"] assms(5,8) big
    by (simp add: fw2 w3_def)
  have d2: "data f1 @ drop k b = data f @ b"
    by (simp add: f1_def)
  have fw3: "files w3 = (files w)(logfile \<mapsto> f2)"
    using assms(9) sys_fclose_files [of "issue (Fstat logfile) w2" logfile f1 "drop k b"]
    by (simp add: w3_def fw2 d2) (simp add: f1_def f2_def)
  have ow3: "os w3 = os w" by (simp add: w3_def fw2)
  have tw3: "trace w3 = trace w @ [Fsync logfile, Fstat logfile, Fclose logfile]"
    by (simp add: w3_def fw2)
  from rotations_trace [OF tw3, of logfile] have rw3: "rotations logfile w3 = rotations logfile w"
    by simp
  have "st_size f1 \<le> st_size f2"
    by (simp add: st_size_def f1_def f2_def)
  with big have big2: "sz < st_size f2" by simp
  have rot: "rotates logfile sz w3"
    using assms(4,5,10) big2 by (simp add: rotates_def ow3 fw3) (simp add: f2_def)
  have f3: "files w3 logfile = Some f2" by (simp add: fw3)
  from assms(12) have sh3: "\<forall>cmd fs. shell (os w3) cmd fs logfile = fs logfile" by (simp add: ow3)
  from assms(11) have rn3: "\<not> refuse (os w3) (Rename logfile (logfile @ ''.1''))" by (simp add: ow3)
  note m = logrotate_moves_active [OF rot assms(6) f3 sh3 rn3, folded w'_def]
  have step: "flogit_while logfile num sz len pend inp w = flogit logfile num sz [] len rest w'"
    using ne by (subst flogit_while.simps) (simp add: assms(1) sw w2_def [symmetric] r w'_def)
  have gen: "files w' (logfile @ ''.1'') = Some (f\<lparr>data := data f @ pend @ cstr chunk\<rparr>)"
    by (simp add: m(2) f2_def b_def)
  have ow': "os w' = os w" by (simp add: m(5) ow3)
  have rw': "rotations logfile w' = rotations logfile w + 1" by (simp add: m(4) rw3)
  have cont: "\<exists>w''. flogit_while logfile num sz len pend inp w = Some (0, w'')
                     \<and> map_option data (files w'' logfile) = Some (concat (chunks len rest))
                     \<and> files w'' (logfile @ ''.1'') = Some (f\<lparr>data := data f @ pend @ cstr chunk\<rparr>)
                     \<and> rotations logfile w'' = rotations logfile w + 1"
    if op: "\<not> refuse (os w) (Fopen logfile)"
      and q: "\<forall>s\<in>set (sizes_after (stdio_flush (os w)) 0 [] (chunks len rest)). int s \<le> sz"
  proof -
    from op have op': "\<not> refuse (os w') (Fopen logfile)" by (simp add: ow')
    from assms(9) have cl': "\<not> refuse (os w') (Fclose logfile)" by (simp add: ow')
    from q have q': "sz \<le> 0 \<or> (\<forall>s\<in>set (sizes_after (stdio_flush (os w')) (length (initial_data w' logfile)) []
                                 (lines_written [] len rest)). int s \<le> sz)"
      by (simp add: ow' m(3) lines_written_def)
    from flogit_quiet [OF assms(2) op' cl' q', of num]
    obtain w'' where w'': "flogit logfile num sz [] len rest w' = Some (0, w'')"
      "map_option data (files w'' logfile) = Some (initial_data w' logfile @ concat (lines_written [] len rest))"
      "\<forall>p. p \<noteq> logfile \<longrightarrow> files w'' p = files w' p"
      "trace w'' = trace w' @ new_calls w' w''"
      "set (new_calls w' w'') \<subseteq> {Fopen logfile, Fsync logfile, Fstat logfile, Fclose logfile}"
      by blast
    from w''(5) have "filter (moves logfile) (new_calls w' w'') = []"
      by (auto simp: filter_empty_conv)
    with rotations_trace [OF w''(4), of logfile] have "rotations logfile w'' = rotations logfile w + 1"
      by (simp add: rw')
    moreover have "files w'' (logfile @ ''.1'') = Some (f\<lparr>data := data f @ pend @ cstr chunk\<rparr>)"
      using w''(3) gen by simp
    moreover have "map_option data (files w'' logfile) = Some (concat (chunks len rest))"
      by (simp add: w''(2) m(3) lines_written_def)
    ultimately show ?thesis using step w''(1) by auto
  qed
  from step gen m(3) rw' cont show ?thesis by blast
qed

lemma atoi_0: "atoi ''0'' = 0" "atoi ''-1'' = -1" "atoi ''100'' = 100" "atoi ''6'' = 6"
  by (simp_all add: atoi_def isspace_def isdigit_def)

lemma strtobytes_spec_0: "strtobytes_spec ''0'' = 0" "strtobytes_spec ''100'' = 100" "strtobytes_spec ''6'' = 6"
  by (simp_all add: strtobytes_spec_def isdigit_def atoi_0)

lemma cstr_empty_buf: "cstr (replicate 512 (CHR 0x00)) = []"
  by (simp add: cstr_def)

lemma main_to_file:
  assumes "getopt_all (environ (os w) ''POSIXLY_CORRECT'' \<noteq> None) ''?f:p:r:st:v'' args
             = ([(CHR ''f'', logfile), (CHR ''r'', tok)], [])"
    and "parse_rotation sb tok (200 * 1024) 5 = (sz, num)"
    and "flogit logfile num sz [] 512 inp (issue (Openlog (environ (os w) ''USER'') 0x10 8) w) = Some (rc, w')"
    and "environ (os w) ''LOGNAME'' = None"
  shows "main sb args inp w = Exit rc (issue Closelog w')"
  using assms by (simp add: main_def initial_settings_def cstr_empty_buf)

lemma flogit_small_write:
  "flogit ''/tmp/x'' 5 6 [] 512 ''bb\<newline>cc\<newline>''
     (issue (Openlog None 0x10 8) (world_with [(''/tmp/x'', reg_file ''aaaa\<newline>'')]))
   = Some (0, \<lparr>files = [''/tmp/x'' \<mapsto> reg_file ''aaaa\<newline>bb\<newline>cc\<newline>''], os = plain_os,
               trace = [Openlog None 0x10 8, Fopen ''/tmp/x'', Fsync ''/tmp/x'', Fstat ''/tmp/x'',
                        Fsync ''/tmp/x'', Fstat ''/tmp/x'', Fclose ''/tmp/x'']\<rparr>)"
  by (simp add: flogit.simps flogit_while.simps fgets_def cstr_def sys_fopen_def stdio_write_def
        fd_write_def sys_fsync_def sys_fstat_def sys_fclose_def checksz_def issue_def Let_def
        world_defs)

text \<open>
  C2. The claim is that a write which takes the active file over the threshold is
  followed by exactly one rotation before the next line is appended. The code writes
  the line with \<^verbatim>\<open>fputs\<close> and calls \<^verbatim>\<open>fsync(fileno(fp))\<close> before it measures the
  file, but \<^verbatim>\<open>fsync\<close> does not write out the buffer of the stream, and the code
  calls no \<^verbatim>\<open>fflush\<close>: \<^verbatim>\<open>fstat\<close> sees the file without the line. With
  \<^verbatim>\<open>-f /tmp/x -r 6\<close>, 5 bytes in \<^verbatim>\<open>/tmp/x\<close> and two lines of 3 bytes on standard
  input, the first line takes the file to 8 bytes, yet both size checks see 5 bytes,
  \<^verbatim>\<open>logrotate\<close> is never called, and the process exits with 11 bytes in \<^verbatim>\<open>/tmp/x\<close>
  and no \<^verbatim>\<open>/tmp/x.1\<close>. When the size check does see the file over the threshold
  the loop rotates as the claim says, for every buffering (\<open>flogit_while_rotates\<close>):
  the loop goes on from \<^verbatim>\<open>reopen\<close> with the empty string in \<open>buf\<close>, the active
  file has been renamed exactly once more, \<^verbatim>\<open><path>.1\<close> holds every byte from
  before, and the active file ends with exactly the chunks read afterwards.
\<close>

theorem buffered_write_not_rotated:
  "exit_status (main strtobytes_spec [''-f'', ''/tmp/x'', ''-r'', ''6''] ''bb\<newline>cc\<newline>''
                  (world_with [(''/tmp/x'', reg_file ''aaaa\<newline>'')])) = Some 0
   \<and> exit_trace (main strtobytes_spec [''-f'', ''/tmp/x'', ''-r'', ''6''] ''bb\<newline>cc\<newline>''
                  (world_with [(''/tmp/x'', reg_file ''aaaa\<newline>'')]))
       = [Openlog None 0x10 8, Fopen ''/tmp/x'', Fsync ''/tmp/x'', Fstat ''/tmp/x'',
          Fsync ''/tmp/x'', Fstat ''/tmp/x'', Fclose ''/tmp/x'', Closelog]
   \<and> map_option data
         (exit_files (main strtobytes_spec [''-f'', ''/tmp/x'', ''-r'', ''6''] ''bb\<newline>cc\<newline>''
                        (world_with [(''/tmp/x'', reg_file ''aaaa\<newline>'')])) ''/tmp/x'')
       = Some ''aaaa\<newline>bb\<newline>cc\<newline>''
   \<and> exit_files (main strtobytes_spec [''-f'', ''/tmp/x'', ''-r'', ''6''] ''bb\<newline>cc\<newline>''
                    (world_with [(''/tmp/x'', reg_file ''aaaa\<newline>'')])) ''/tmp/x.1'' = None"
proof -
  let ?w = "world_with [(''/tmp/x'', reg_file ''aaaa\<newline>'')]"
  have g: "getopt_all (environ (os ?w) ''POSIXLY_CORRECT'' \<noteq> None) ''?f:p:r:st:v''
             [''-f'', ''/tmp/x'', ''-r'', ''6''] = ([(CHR ''f'', ''/tmp/x''), (CHR ''r'', ''6'')], [])"
    by (simp add: world_with_def plain_os_def is_option_def)
  have pr: "parse_rotation strtobytes_spec ''6'' (200 * 1024) 5 = (6, 5)"
    by (simp add: parse_rotation_def split_at_def strtobytes_spec_0)
  have e: "environ (os ?w) ''LOGNAME'' = None" "environ (os ?w) ''USER'' = None"
    by (simp_all add: world_with_def plain_os_def)
  from flogit_small_write have fl: "flogit ''/tmp/x'' 5 6 [] 512 ''bb\<newline>cc\<newline>''
     (issue (Openlog (environ (os ?w) ''USER'') 0x10 8) ?w)
   = Some (0, \<lparr>files = [''/tmp/x'' \<mapsto> reg_file ''aaaa\<newline>bb\<newline>cc\<newline>''], os = plain_os,
               trace = [Openlog None 0x10 8, Fopen ''/tmp/x'', Fsync ''/tmp/x'', Fstat ''/tmp/x'',
                        Fsync ''/tmp/x'', Fstat ''/tmp/x'', Fclose ''/tmp/x'']\<rparr>)"
    by (simp only: e)
  note m = main_to_file [OF g pr fl e(1)]
  show ?thesis
    unfolding m by (simp add: exit_status_def exit_trace_def exit_files_def issue_def reg_file_def)
qed


section \<open>The rotation option (C7, C8)\<close>

lemma parse_rotation_positive:
  "0 < size0 \<Longrightarrow> 0 < fst (parse_rotation sb tok size0 num0)"
  by (simp add: parse_rotation_def Let_def case_prod_beta)

lemma parse_rotation_zero_size:
  "sb ''0'' \<le> 0 \<Longrightarrow> parse_rotation sb ''0'' size0 num0 = (size0, num0)"
  by (simp add: parse_rotation_def Let_def split_at_def)

lemma parse_rotation_zero_count:
  "split_at (CHR '':'') (take 99 tok) = Some (a, c) \<Longrightarrow> atoi c = 0 \<Longrightarrow>
   snd (parse_rotation sb tok size0 num0) = num0"
  by (simp add: parse_rotation_def Let_def)

lemma parse_rotation_negative_count:
  "snd (parse_rotation sb ''100:-1'' size0 num0) = -1"
  by (simp add: parse_rotation_def Let_def split_at_def atoi_0)

lemma flogit_first_line_rotates:
  assumes "fgets len inp = Some (chunk, rest)" and "2 \<le> len"
    and "files w logfile = Some f" and "S_ISREG (st_mode f)"
    and "0 < sz" and "0 < num"
    and "sz < int (length (data f) + length (take (stdio_flush (os w) (cstr chunk)) (cstr chunk)))"
    and "\<forall>c. \<not> refuse (os w) c"
    and "\<forall>cmd fs. shell (os w) cmd fs logfile = fs logfile"
    and "\<forall>s\<in>set (sizes_after (stdio_flush (os w)) 0 [] (chunks len rest)). int s \<le> sz"
  shows "\<exists>w''. flogit logfile num sz [] len inp w = Some (0, w'')
           \<and> map_option data (files w'' logfile) = Some (concat (chunks len rest))
           \<and> files w'' (logfile @ ''.1'') = Some (f\<lparr>data := data f @ cstr chunk\<rparr>)"
proof -
  define w0 where "w0 = snd (sys_fopen logfile w)"
  have op: "sys_fopen logfile w = (True, w0)"
    using assms(3,8) by (simp add: w0_def sys_fopen_def)
  have fw0: "files w0 logfile = Some f" "os w0 = os w"
    using assms(3,8) by (simp_all add: w0_def sys_fopen_files)
  have st: "flogit logfile num sz [] len inp w = flogit_while logfile num sz len [] inp w0"
    by (subst flogit.simps) (simp add: op)
  from flogit_while_rotates [where pend = "[]", OF assms(1,2) fw0(1) assms(4-6)] assms(7-10)
  show ?thesis
    by (simp add: fw0(2) st) blast
qed


lemma chunks_one_line: "chunks 512 ''cd\<newline>'' = [''cd\<newline>'']"
  by (simp add: chunks.simps fgets_def cstr_def)

lemma logrotate_truncates_in_place:
  assumes "rotates file sz w" and "num \<le> 0"
  shows "fst (logrotate file num sz w) = 0"
    and "renames (snd (logrotate file num sz w)) = renames w"
    and "dom (files (snd (logrotate file num sz w))) = dom (files w)"
    and "\<forall>p. p \<noteq> file \<longrightarrow> files (snd (logrotate file num sz w)) p = files w p"
    and "\<not> refuse (os w) (Truncate file 0) \<longrightarrow>
           map_option data (files (snd (logrotate file num sz w)) file) = Some []"
proof -
  from assms(1) obtain st where st: "sys_stat file w = (Some st, issue (Stat file) w)"
    "files w file = Some st" and c: "sz > 0" "S_ISREG (st_mode st)" "st_size st > sz"
    by (auto simp: rotates_def sys_stat_def split: option.splits)
  define w1 where "w1 = snd (sys_truncate file 0 (issue (Stat file) w))"
  have lr: "snd (logrotate file num sz w)
      = (if fst (sys_truncate file 0 (issue (Stat file) w)) \<noteq> 0
         then issue (Syslog 3 (''Failed truncating '' @ file @ '' during logrotate'')) w1 else w1)"
    "fst (logrotate file num sz w) = 0"
    using c assms(2) by (simp_all add: logrotate_def st case_prod_beta w1_def)
  have f1: "files w1 = (if refuse (os w) (Truncate file 0) then files w else (files w)(file \<mapsto> st\<lparr>data := []\<rparr>))"
    by (simp add: w1_def sys_truncate_files st(2))
  have r1: "renames w1 = renames w"
    by (simp add: w1_def renames_def)
  show "fst (logrotate file num sz w) = 0" by (rule lr(2))
  show "renames (snd (logrotate file num sz w)) = renames w"
    by (simp add: lr(1) r1)
  show "dom (files (snd (logrotate file num sz w))) = dom (files w)"
    using st(2) by (auto simp: lr(1) f1 split: if_splits)
  show "\<forall>p. p \<noteq> file \<longrightarrow> files (snd (logrotate file num sz w)) p = files w p"
    by (simp add: lr(1) f1)
  show "\<not> refuse (os w) (Truncate file 0) \<longrightarrow>
           map_option data (files (snd (logrotate file num sz w)) file) = Some []"
    by (simp add: lr(1) f1)
qed

text \<open>
  C7, as the code has it. \<^verbatim>\<open>parse_rotation\<close> stores the size only
  \<^verbatim>\<open>if (sz > 0)\<close>: the token \<^verbatim>\<open>0\<close> leaves the threshold and the number of
  generations as they were (200 KiB and 5 in \<^verbatim>\<open>main\<close>), and no token takes a
  positive threshold to zero or below, so rotation stays enabled. Rotation is off for
  a threshold \<open>sz \<le> 0\<close> given to \<^verbatim>\<open>flogit\<close>: then every write is appended, only
  \<^verbatim>\<open>fopen\<close>, \<^verbatim>\<open>fsync\<close>, \<^verbatim>\<open>fstat\<close> and \<^verbatim>\<open>fclose\<close> are called, and no other file
  is created or changed.
\<close>

theorem size_zero_keeps_threshold:
  "(sb ''0'' \<le> 0 \<longrightarrow> parse_rotation sb ''0'' size0 num0 = (size0, num0))
   \<and> (0 < size0 \<longrightarrow> 0 < fst (parse_rotation sb tok size0 num0))
   \<and> (sz \<le> 0 \<and> 2 \<le> len \<and> \<not> refuse (os w) (Fopen logfile) \<and> \<not> refuse (os w) (Fclose logfile) \<longrightarrow>
        (\<exists>w'. flogit logfile num sz buf len inp w = Some (0, w')
           \<and> map_option data (files w' logfile)
               = Some (initial_data w logfile @ concat (lines_written buf len inp))
           \<and> (\<forall>p. p \<noteq> logfile \<longrightarrow> files w' p = files w p)
           \<and> set (new_calls w w') \<subseteq> {Fopen logfile, Fsync logfile, Fstat logfile, Fclose logfile}))"
proof (intro conjI impI)
  assume "sb ''0'' \<le> 0"
  then show "parse_rotation sb ''0'' size0 num0 = (size0, num0)"
    by (rule parse_rotation_zero_size)
next
  assume "0 < size0"
  then show "0 < fst (parse_rotation sb tok size0 num0)"
    by (rule parse_rotation_positive)
next
  assume h: "sz \<le> 0 \<and> 2 \<le> len \<and> \<not> refuse (os w) (Fopen logfile) \<and> \<not> refuse (os w) (Fclose logfile)"
  then have "sz \<le> 0 \<or> (\<forall>s\<in>set (sizes_after (stdio_flush (os w)) (length (initial_data w logfile)) []
                                 (lines_written buf len inp)). int s \<le> sz)"
    by simp
  from flogit_quiet [OF _ _ _ this, of num] h
  show "\<exists>w'. flogit logfile num sz buf len inp w = Some (0, w')
           \<and> map_option data (files w' logfile)
               = Some (initial_data w logfile @ concat (lines_written buf len inp))
           \<and> (\<forall>p. p \<noteq> logfile \<longrightarrow> files w' p = files w p)
           \<and> set (new_calls w w') \<subseteq> {Fopen logfile, Fsync logfile, Fstat logfile, Fclose logfile}"
    by blast
qed

theorem size_zero_keeps_threshold_witness:
  "strtobytes_spec ''0'' \<le> 0
   \<and> parse_rotation strtobytes_spec ''0'' 204800 5 = (204800, 5)
   \<and> 0 < fst (parse_rotation strtobytes_spec ''100'' 204800 5)
   \<and> (\<exists>w'. flogit ''/tmp/x'' 5 0 [] 512 ''cd\<newline>'' (world_with [(''/tmp/x'', reg_file ''ab\<newline>'')]) = Some (0, w')
           \<and> map_option data (files w' ''/tmp/x'') = Some ''ab\<newline>cd\<newline>'')"
  using size_zero_keeps_threshold [of strtobytes_spec 204800 5 "''100''" 0 512
          "world_with [(''/tmp/x'', reg_file ''ab\<newline>'')]" "''/tmp/x''" 5 "[]" "''cd\<newline>''"]
  by (simp add: strtobytes_spec_0 world_defs initial_data_def lines_written_def chunks_one_line) blast

text \<open>
  C7 as the claim states it (no \<^verbatim>\<open><path>.1\<close> is ever created under \<^verbatim>\<open>-r 0\<close>)
  fails: with \<^verbatim>\<open>-f /tmp/x -r 0\<close>, a file of 204801 bytes (one more than the
  threshold that stays in force) and one line on standard input, the size check sees
  the file over the threshold and the process exits with all 204803 bytes in
  \<^verbatim>\<open>/tmp/x.1\<close>.
\<close>

theorem zero_size_rotates_counterexample:
  "map_option data
     (exit_files (main strtobytes_spec [''-f'', ''/tmp/x'', ''-r'', ''0''] ''b\<newline>''
                    (world_with [(''/tmp/x'', reg_file (replicate 204801 (CHR ''a'')))])) ''/tmp/x.1'')
     = Some (replicate 204801 (CHR ''a'') @ ''b\<newline>'')"
proof -
  let ?w = "world_with [(''/tmp/x'', reg_file (replicate 204801 (CHR ''a'')))]"
  let ?w2 = "issue (Openlog (environ (os ?w) ''USER'') 0x10 8) ?w"
  have g: "getopt_all (environ (os ?w) ''POSIXLY_CORRECT'' \<noteq> None) ''?f:p:r:st:v''
             [''-f'', ''/tmp/x'', ''-r'', ''0''] = ([(CHR ''f'', ''/tmp/x''), (CHR ''r'', ''0'')], [])"
    by (simp add: world_with_def plain_os_def is_option_def)
  have pr: "parse_rotation strtobytes_spec ''0'' (200 * 1024) 5 = (204800, 5)"
    using parse_rotation_zero_size [of strtobytes_spec "200 * 1024" 5] by (simp add: strtobytes_spec_0)
  have fg: "fgets 512 ''b\<newline>'' = Some (''b\<newline>'', [])"
    by (simp add: fgets_def)
  have ch: "chunks 512 [] = []"
    by (simp add: chunks.simps fgets_def)
  have "\<exists>w''. flogit ''/tmp/x'' 5 204800 [] 512 ''b\<newline>'' ?w2 = Some (0, w'')
           \<and> map_option data (files w'' ''/tmp/x'') = Some (concat (chunks 512 []))
           \<and> files w'' (''/tmp/x'' @ ''.1'')
               = Some ((reg_file (replicate 204801 (CHR ''a'')))\<lparr>data := data (reg_file (replicate 204801 (CHR ''a''))) @ cstr ''b\<newline>''\<rparr>)"
    by (rule flogit_first_line_rotates [OF fg])
       (simp_all add: world_defs cstr_def ch)
  then obtain w'' where w'': "flogit ''/tmp/x'' 5 204800 [] 512 ''b\<newline>'' ?w2 = Some (0, w'')"
    "files w'' ''/tmp/x.1'' = Some ((reg_file (replicate 204801 (CHR ''a'')))\<lparr>data := data (reg_file (replicate 204801 (CHR ''a''))) @ cstr ''b\<newline>''\<rparr>)"
    by auto
  have e: "environ (os ?w) ''LOGNAME'' = None"
    by (simp add: world_with_def plain_os_def)
  from main_to_file [OF g pr w''(1) e] show ?thesis
    by (simp add: exit_files_def w''(2) reg_file_def cstr_def)
qed


text \<open>
  C8, as the code has it. \<^verbatim>\<open>parse_rotation\<close> stores the count only \<^verbatim>\<open>if (cnt)\<close>:
  a token whose COUNT reads as zero leaves the number of generations as it was (5 in
  \<^verbatim>\<open>main\<close>), and with that number a write after which the size check finds the
  active file over the threshold rotates it into \<^verbatim>\<open><path>.1\<close> as usual.
  \<^verbatim>\<open>logrotate\<close> truncates in place when its \<open>num\<close> is zero or negative, which
  \<^verbatim>\<open>parse_rotation\<close> stores for a negative COUNT such as \<^verbatim>\<open>100:-1\<close>: then it
  returns 0, issues no rename, creates no file and changes no other file, and the
  active file has length 0 unless the truncation is refused.
\<close>

theorem count_zero_keeps_generations:
  "(split_at (CHR '':'') (take 99 tok) = Some (a, c) \<and> atoi c = 0
      \<longrightarrow> snd (parse_rotation sb tok size0 num0) = num0)
   \<and> (split_at (CHR '':'') (take 99 tok) = Some (a, c) \<and> atoi c = 0 \<and> 0 < num0
       \<and> fgets len inp = Some (chunk, rest) \<and> 2 \<le> len
       \<and> files w logfile = Some f \<and> S_ISREG (st_mode f) \<and> 0 < sz
       \<and> sz < int (length (data f)
                    + length (take (stdio_flush (os w) (pend @ cstr chunk)) (pend @ cstr chunk)))
       \<and> \<not> refuse (os w) (Fstat logfile) \<and> \<not> refuse (os w) (Fclose logfile)
       \<and> \<not> refuse (os w) (Stat logfile) \<and> \<not> refuse (os w) (Rename logfile (logfile @ ''.1''))
       \<and> (\<forall>cmd fs. shell (os w) cmd fs logfile = fs logfile)
      \<longrightarrow> (\<exists>w'. flogit_while logfile (snd (parse_rotation sb tok size0 num0)) sz len pend inp w
                   = flogit logfile (snd (parse_rotation sb tok size0 num0)) sz [] len rest w'
               \<and> files w' (logfile @ ''.1'') = Some (f\<lparr>data := data f @ pend @ cstr chunk\<rparr>)
               \<and> initial_data w' logfile = []
               \<and> rotations logfile w' = rotations logfile w + 1))
   \<and> snd (parse_rotation sb ''100:-1'' size0 num0) = -1
   \<and> (rotates file sz w \<and> num \<le> 0 \<longrightarrow>
         fst (logrotate file num sz w) = 0
         \<and> renames (snd (logrotate file num sz w)) = renames w
         \<and> dom (files (snd (logrotate file num sz w))) = dom (files w)
         \<and> (\<forall>p. p \<noteq> file \<longrightarrow> files (snd (logrotate file num sz w)) p = files w p)
         \<and> (\<not> refuse (os w) (Truncate file 0) \<longrightarrow>
               map_option data (files (snd (logrotate file num sz w)) file) = Some []))"
proof -
  have c1: "split_at (CHR '':'') (take 99 tok) = Some (a, c) \<and> atoi c = 0
      \<longrightarrow> snd (parse_rotation sb tok size0 num0) = num0"
    using parse_rotation_zero_count [of tok a c sb size0 num0] by blast
  have c2: "split_at (CHR '':'') (take 99 tok) = Some (a, c) \<and> atoi c = 0 \<and> 0 < num0
       \<and> fgets len inp = Some (chunk, rest) \<and> 2 \<le> len
       \<and> files w logfile = Some f \<and> S_ISREG (st_mode f) \<and> 0 < sz
       \<and> sz < int (length (data f)
                    + length (take (stdio_flush (os w) (pend @ cstr chunk)) (pend @ cstr chunk)))
       \<and> \<not> refuse (os w) (Fstat logfile) \<and> \<not> refuse (os w) (Fclose logfile)
       \<and> \<not> refuse (os w) (Stat logfile) \<and> \<not> refuse (os w) (Rename logfile (logfile @ ''.1''))
       \<and> (\<forall>cmd fs. shell (os w) cmd fs logfile = fs logfile)
      \<longrightarrow> (\<exists>w'. flogit_while logfile (snd (parse_rotation sb tok size0 num0)) sz len pend inp w
                   = flogit logfile (snd (parse_rotation sb tok size0 num0)) sz [] len rest w'
               \<and> files w' (logfile @ ''.1'') = Some (f\<lparr>data := data f @ pend @ cstr chunk\<rparr>)
               \<and> initial_data w' logfile = []
               \<and> rotations logfile w' = rotations logfile w + 1)"
  proof
    assume h: "split_at (CHR '':'') (take 99 tok) = Some (a, c) \<and> atoi c = 0 \<and> 0 < num0
       \<and> fgets len inp = Some (chunk, rest) \<and> 2 \<le> len
       \<and> files w logfile = Some f \<and> S_ISREG (st_mode f) \<and> 0 < sz
       \<and> sz < int (length (data f)
                    + length (take (stdio_flush (os w) (pend @ cstr chunk)) (pend @ cstr chunk)))
       \<and> \<not> refuse (os w) (Fstat logfile) \<and> \<not> refuse (os w) (Fclose logfile)
       \<and> \<not> refuse (os w) (Stat logfile) \<and> \<not> refuse (os w) (Rename logfile (logfile @ ''.1''))
       \<and> (\<forall>cmd fs. shell (os w) cmd fs logfile = fs logfile)"
    then have n: "snd (parse_rotation sb tok size0 num0) = num0"
      using parse_rotation_zero_count [of tok a c sb size0 num0] by blast
    from h have "\<exists>w'. flogit_while logfile num0 sz len pend inp w = flogit logfile num0 sz [] len rest w'
           \<and> files w' (logfile @ ''.1'') = Some (f\<lparr>data := data f @ pend @ cstr chunk\<rparr>)
           \<and> initial_data w' logfile = []
           \<and> rotations logfile w' = rotations logfile w + 1
           \<and> (\<not> refuse (os w) (Fopen logfile)
                \<and> (\<forall>s\<in>set (sizes_after (stdio_flush (os w)) 0 [] (chunks len rest)). int s \<le> sz)
               \<longrightarrow> (\<exists>w''. flogit_while logfile num0 sz len pend inp w = Some (0, w'')
                     \<and> map_option data (files w'' logfile) = Some (concat (chunks len rest))
                     \<and> files w'' (logfile @ ''.1'') = Some (f\<lparr>data := data f @ pend @ cstr chunk\<rparr>)
                     \<and> rotations logfile w'' = rotations logfile w + 1))"
      by (intro flogit_while_rotates) simp_all
    then show "\<exists>w'. flogit_while logfile (snd (parse_rotation sb tok size0 num0)) sz len pend inp w
                   = flogit logfile (snd (parse_rotation sb tok size0 num0)) sz [] len rest w'
               \<and> files w' (logfile @ ''.1'') = Some (f\<lparr>data := data f @ pend @ cstr chunk\<rparr>)
               \<and> initial_data w' logfile = []
               \<and> rotations logfile w' = rotations logfile w + 1"
      unfolding n by blast
  qed
  have c3: "snd (parse_rotation sb ''100:-1'' size0 num0) = -1"
    by (rule parse_rotation_negative_count)
  have c4: "rotates file sz w \<and> num \<le> 0 \<longrightarrow>
         fst (logrotate file num sz w) = 0
         \<and> renames (snd (logrotate file num sz w)) = renames w
         \<and> dom (files (snd (logrotate file num sz w))) = dom (files w)
         \<and> (\<forall>p. p \<noteq> file \<longrightarrow> files (snd (logrotate file num sz w)) p = files w p)
         \<and> (\<not> refuse (os w) (Truncate file 0) \<longrightarrow>
               map_option data (files (snd (logrotate file num sz w)) file) = Some [])"
    using logrotate_truncates_in_place [of "file" sz w num] by blast
  show ?thesis
    by (rule conjI [OF c1 conjI [OF c2 conjI [OF c3 c4]]])
qed

theorem count_zero_keeps_generations_witness:
  "split_at (CHR '':'') (take 99 ''100:0'') = Some (''100'', ''0'') \<and> atoi ''0'' = 0
   \<and> snd (parse_rotation strtobytes_spec ''100:0'' 204800 5) = 5
   \<and> fgets 512 ''b\<newline>'' = Some (''b\<newline>'', [])
   \<and> files (world_with [(''/tmp/x'', reg_file ''abc'')]) ''/tmp/x'' = Some (reg_file ''abc'')
   \<and> 1 < int (length (data (reg_file ''abc''))
               + length (take (stdio_flush (os (world_with [(''/tmp/x'', reg_file ''abc'')]))
                                 ([] @ cstr ''b\<newline>'')) ([] @ cstr ''b\<newline>'')))
   \<and> (\<exists>w'. flogit_while ''/tmp/x'' (snd (parse_rotation strtobytes_spec ''100:0'' 204800 5)) 1 512 []
                ''b\<newline>'' (world_with [(''/tmp/x'', reg_file ''abc'')])
              = flogit ''/tmp/x'' (snd (parse_rotation strtobytes_spec ''100:0'' 204800 5)) 1 [] 512 [] w'
           \<and> files w' ''/tmp/x.1'' = Some (reg_file ''abcb\<newline>'')
           \<and> initial_data w' ''/tmp/x'' = []
           \<and> rotations ''/tmp/x'' w' = 1)
   \<and> rotates ''/tmp/x'' 1 (world_with [(''/tmp/x'', reg_file ''abc'')])
   \<and> \<not> refuse (os (world_with [(''/tmp/x'', reg_file ''abc'')])) (Truncate ''/tmp/x'' 0)
   \<and> map_option data (files (snd (logrotate ''/tmp/x'' (-1) 1 (world_with [(''/tmp/x'', reg_file ''abc'')]))) ''/tmp/x'')
       = Some []
   \<and> dom (files (snd (logrotate ''/tmp/x'' (-1) 1 (world_with [(''/tmp/x'', reg_file ''abc'')]))))
       = {''/tmp/x''}"
  using count_zero_keeps_generations [where tok = "''100:0''" and a = "''100''" and c = "''0''"
          and sb = strtobytes_spec and ?size0.0 = 204800 and ?num0.0 = 5 and len = 512
          and inp = "''b\<newline>''" and chunk = "''b\<newline>''" and rest = "[]"
          and w = "world_with [(''/tmp/x'', reg_file ''abc'')]" and logfile = "''/tmp/x''"
          and f = "reg_file ''abc''" and sz = 1 and pend = "[]" and ?file = "''/tmp/x''" and num = "-1"]
    parse_rotation_zero_count [of "''100:0''" "''100''" "''0''" strtobytes_spec 204800 5]
  by (simp add: split_at_def atoi_0 world_defs fgets_def cstr_def rotations_def)

text \<open>
  C8 as the claim states it (\<^verbatim>\<open>100:0\<close> makes max_generations 0 and creates no
  generation file) fails: the count stays 5, and with \<^verbatim>\<open>-f /tmp/x -r 100:0\<close>, a file
  of 101 bytes and one line on standard input, the size check sees the file over the
  threshold and the process exits with the 103 bytes in \<^verbatim>\<open>/tmp/x.1\<close>.
\<close>

theorem count_zero_rotates_counterexample:
  "snd (parse_rotation strtobytes_spec ''100:0'' (200 * 1024) 5) = 5
   \<and> map_option data
     (exit_files (main strtobytes_spec [''-f'', ''/tmp/x'', ''-r'', ''100:0''] ''b\<newline>''
                    (world_with [(''/tmp/x'', reg_file (replicate 101 (CHR ''a'')))])) ''/tmp/x.1'')
     = Some (replicate 101 (CHR ''a'') @ ''b\<newline>'')"
proof -
  let ?w = "world_with [(''/tmp/x'', reg_file (replicate 101 (CHR ''a'')))]"
  let ?w2 = "issue (Openlog (environ (os ?w) ''USER'') 0x10 8) ?w"
  have g: "getopt_all (environ (os ?w) ''POSIXLY_CORRECT'' \<noteq> None) ''?f:p:r:st:v''
             [''-f'', ''/tmp/x'', ''-r'', ''100:0''] = ([(CHR ''f'', ''/tmp/x''), (CHR ''r'', ''100:0'')], [])"
    by (simp add: world_with_def plain_os_def is_option_def)
  have pr: "parse_rotation strtobytes_spec ''100:0'' (200 * 1024) 5 = (100, 5)"
    by (simp add: parse_rotation_def split_at_def atoi_0 strtobytes_spec_0)
  have fg: "fgets 512 ''b\<newline>'' = Some (''b\<newline>'', [])"
    by (simp add: fgets_def)
  have ch: "chunks 512 [] = []"
    by (simp add: chunks.simps fgets_def)
  have "\<exists>w''. flogit ''/tmp/x'' 5 100 [] 512 ''b\<newline>'' ?w2 = Some (0, w'')
           \<and> map_option data (files w'' ''/tmp/x'') = Some (concat (chunks 512 []))
           \<and> files w'' (''/tmp/x'' @ ''.1'')
               = Some ((reg_file (replicate 101 (CHR ''a'')))\<lparr>data := data (reg_file (replicate 101 (CHR ''a''))) @ cstr ''b\<newline>''\<rparr>)"
    by (rule flogit_first_line_rotates [OF fg])
       (simp_all add: world_defs cstr_def ch)
  then obtain w'' where w'': "flogit ''/tmp/x'' 5 100 [] 512 ''b\<newline>'' ?w2 = Some (0, w'')"
    "files w'' ''/tmp/x.1'' = Some ((reg_file (replicate 101 (CHR ''a'')))\<lparr>data := data (reg_file (replicate 101 (CHR ''a''))) @ cstr ''b\<newline>''\<rparr>)"
    by auto
  have e: "environ (os ?w) ''LOGNAME'' = None"
    by (simp add: world_with_def plain_os_def)
  from main_to_file [OF g pr w''(1) e] pr show ?thesis
    by (simp add: exit_files_def w''(2) reg_file_def cstr_def)
qed



end
